theory Spec2Isabelle
  imports Main "HOL-Library.Word"
begin

unbundle bit_operations_syntax

section \<open>Go values the scan engine works with\<close>

subsection \<open>Errors\<close>

text \<open>
  A Go \<^verbatim>\<open>error\<close> is a value with a message (\<^verbatim>\<open>Error()\<close>). The sentinels the
  engine compares against or hands back are constructors of their own, so that two
  errors that merely print alike stay different values:
  \<^verbatim>\<open>fs.SkipDir\<close>, \<^verbatim>\<open>context.Canceled\<close>, \<^verbatim>\<open>context.DeadlineExceeded\<close>,
  \<^verbatim>\<open>fs.ErrPermission\<close> and the package variable \<^verbatim>\<open>ErrNotRelativeToScanRoots\<close>.
  \<^verbatim>\<open>New\<close> is an error made by \<^verbatim>\<open>errors.New\<close> or by \<^verbatim>\<open>fmt.Errorf\<close> without
  \<^verbatim>\<open>%w\<close>; \<^verbatim>\<open>Wrap\<close> is one made by \<^verbatim>\<open>fmt.Errorf\<close> with \<^verbatim>\<open>%w\<close> verbs: the
  formatted message and the errors it wraps, in order; \<^verbatim>\<open>PathError\<close> is
  \<^verbatim>\<open>*fs.PathError{Op, Path, Err}\<close>.
\<close>

datatype go_error =
    SkipDir
  | Canceled
  | DeadlineExceeded
  | ErrPermission
  | ErrNotRelativeToScanRoots
  | New string
  | Wrap string "go_error list"
  | PathError string string go_error

fun Error :: "go_error \<Rightarrow> string" where
  "Error SkipDir = ''skip this directory''"
| "Error Canceled = ''context canceled''"
| "Error DeadlineExceeded = ''context deadline exceeded''"
| "Error ErrPermission = ''permission denied''"
| "Error ErrNotRelativeToScanRoots = ''path not relative to any of the scan roots''"
| "Error (New msg) = msg"
| "Error (Wrap msg es) = msg"
| "Error (PathError op p e) = op @ '' '' @ p @ '': '' @ Error e"

text \<open>
  \<^verbatim>\<open>os.IsPermission\<close> looks through a \<^verbatim>\<open>PathError\<close> (not through \<^verbatim>\<open>%w\<close>) for the
  permission sentinel.
\<close>

fun IsPermission :: "go_error \<Rightarrow> bool" where
  "IsPermission ErrPermission = True"
| "IsPermission (PathError op p e) = (e = ErrPermission)"
| "IsPermission e = False"

text \<open>\<^verbatim>\<open>%v\<close> of an error prints its message; \<^verbatim>\<open>%v\<close> of a nil error prints \<^verbatim>\<open><nil>\<close>.\<close>

definition Errorf_Open :: "string \<Rightarrow> go_error \<Rightarrow> go_error" where
  \<comment> \<open>\<^verbatim>\<open>fmt.Errorf("Open(%s): %v", path, err)\<close>\<close>
  "Errorf_Open path e = New (''Open('' @ path @ ''): '' @ Error e)"

definition Errorf_stat :: "string \<Rightarrow> go_error \<Rightarrow> go_error" where
  \<comment> \<open>\<^verbatim>\<open>fmt.Errorf("stat(%s): %v", path, err)\<close>\<close>
  "Errorf_stat path e = New (''stat('' @ path @ ''): '' @ Error e)"

definition Errorf_path :: "string \<Rightarrow> go_error \<Rightarrow> go_error" where
  \<comment> \<open>\<^verbatim>\<open>fmt.Errorf("%s: %w", path, err)\<close>\<close>
  "Errorf_path path e = Wrap (path @ '': '' @ Error e) [e]"

definition Errorf_chain :: "go_error \<Rightarrow> go_error \<Rightarrow> go_error" where
  \<comment> \<open>\<^verbatim>\<open>fmt.Errorf("%w\n%w", prev, err)\<close>\<close>
  "Errorf_chain prev e = Wrap (Error prev @ [CHR 0x0A] @ Error e) [prev, e]"

subsection \<open>Strings\<close>

text \<open>
  A Go string is a byte sequence. \<^verbatim>\<open>strings.HasPrefix\<close>, \<^verbatim>\<open>strings.HasSuffix\<close> and
  \<^verbatim>\<open>strings.Contains\<close> compare bytes; \<^verbatim>\<open>strings.Split\<close> with a one-byte separator
  cuts at every occurrence and returns at least one piece; \<^verbatim>\<open>strings.Join\<close> puts the
  separator between the pieces.
\<close>

definition HasPrefix :: "string \<Rightarrow> string \<Rightarrow> bool" where
  "HasPrefix s pre = (take (length pre) s = pre)"

fun Contains :: "string \<Rightarrow> string \<Rightarrow> bool" where
  "Contains [] sub = (sub = [])"
| "Contains (c # cs) sub = (if HasPrefix (c # cs) sub then True else Contains cs sub)"

fun Split :: "string \<Rightarrow> char \<Rightarrow> string list" where
  "Split [] sep = [[]]"
| "Split (c # cs) sep =
     (if c = sep then [] # Split cs sep
      else (case Split cs sep of
              [] \<Rightarrow> [[c]]
            | p # ps \<Rightarrow> (c # p) # ps))"

fun Join :: "string list \<Rightarrow> string \<Rightarrow> string" where
  "Join [] sep = []"
| "Join [p] sep = p"
| "Join (p # q # ps) sep = p @ sep @ Join (q # ps) sep"

definition upperLetters :: string where
  "upperLetters = ''ABCDEFGHIJKLMNOPQRSTUVWXYZ''"

definition lowerLetters :: string where
  "lowerLetters = ''abcdefghijklmnopqrstuvwxyz''"

definition digitChars :: string where
  "digitChars = ''0123456789''"

text \<open>\<^verbatim>\<open>strings.ToLower\<close> on ASCII text: the 26 capital letters are mapped, every other
  byte is kept.\<close>

definition toLowerChar :: "char \<Rightarrow> char" where
  "toLowerChar c = (case map_of (zip upperLetters lowerLetters) c of Some l \<Rightarrow> l | None \<Rightarrow> c)"

definition ToLower :: "string \<Rightarrow> string" where
  "ToLower s = map toLowerChar s"

section \<open>Error chaining: \<^verbatim>\<open>addErrToMap\<close>\<close>

text \<open>
  \<^verbatim>\<open>errors map[string]error\<close> is a map from plugin names to errors. A first error for
  a key is stored as it is; a later one is chained behind the stored one.
\<close>

definition addErrToMap :: "(string \<rightharpoonup> go_error) \<Rightarrow> string \<Rightarrow> go_error \<Rightarrow> (string \<rightharpoonup> go_error)" where
  "addErrToMap errors key e =
     (case errors key of
        None \<Rightarrow> errors(key \<mapsto> e)
      | Some prev \<Rightarrow> errors(key \<mapsto> Errorf_chain prev e))"

text \<open>Recording a sequence of (plugin name, error) pairs, in order.\<close>

fun recordAll :: "(string \<rightharpoonup> go_error) \<Rightarrow> (string \<times> go_error) list \<Rightarrow> (string \<rightharpoonup> go_error)" where
  "recordAll errors [] = errors"
| "recordAll errors ((key, e) # rest) = recordAll (addErrToMap errors key e) rest"

definition errorsOf :: "string \<Rightarrow> (string \<times> go_error) list \<Rightarrow> go_error list" where
  "errorsOf key recs = map snd (filter (\<lambda>r. fst r = key) recs)"

definition newline :: string where
  "newline = [CHR 0x0A]"

section \<open>Plugins, capabilities and statuses\<close>

text \<open>
  \<^verbatim>\<open>plugin.Capabilities\<close>: the host's operating system, and whether network access, direct
  filesystem access and the running system are available. A plugin's \<^verbatim>\<open>Requirements()\<close>
  is a record of the same type.
\<close>

datatype OS = OSAny | OSLinux | OSMac | OSWindows | OSUnknown

record Capabilities =
  OS :: OS
  Network :: bool
  DirectFS :: bool
  RunningSystem :: bool

text \<open>
  An inventory record (\<^verbatim>\<open>extractor.Inventory\<close>). The reference to the originating plugin
  (\<^verbatim>\<open>Inventory.Extractor\<close>) is kept as the plugin's name, which identifies it; \<^verbatim>\<open>None\<close>
  is the nil reference of a freshly extracted record.
\<close>

record Inventory =
  inv_Name :: string
  inv_Version :: string
  inv_Locations :: "string list"
  inv_Extractor :: "string option"

type_synonym FileMode = "32 word"

record FileInfo =
  fi_Name :: string
  fi_Size :: int
  fi_Mode :: FileMode

text \<open>\<^verbatim>\<open>ScanInput\<close>; the reader is the content it will deliver.\<close>

record ScanInput =
  Path :: string
  ScanRoot :: string
  Info :: FileInfo
  Reader :: string

text \<open>What one \<^verbatim>\<open>Extract\<close> call hands back: the inventory list and the error (both
  may be set).\<close>

record ExtractResult =
  results :: "Inventory list"
  err :: "go_error option"

text \<open>
  The identity every plugin has, and the three plugin interfaces. A method that panics
  returns \<^verbatim>\<open>None\<close>. \<^verbatim>\<open>Extract\<close> receives what \<^verbatim>\<open>ctx.Err()\<close> is when it is called.
\<close>

record Plugin =
  Name :: string
  Version :: int
  Requirements :: Capabilities

record Extractor = Plugin +
  FileRequired :: "string \<Rightarrow> FileInfo \<Rightarrow> bool option"
  Extract :: "go_error option \<Rightarrow> ScanInput \<Rightarrow> ExtractResult option"

record StandaloneExtractor = Plugin +
  ExtractStandalone :: "go_error option \<Rightarrow> ExtractResult option"

record Detector = Plugin +
  RequiredExtractors :: "string list"

definition ValidateRequirements :: "'a Plugin_scheme \<Rightarrow> Capabilities \<Rightarrow> go_error option" where
  \<comment> \<open>Modelled from the spec: \<^verbatim>\<open>plugin.ValidateRequirements\<close> is not among the sources.
      Section 4.1: an error when the required OS tag is not Any and differs from the
      host's, when the plugin requires network and network is denied, when it requires
      direct filesystem access and the host cannot provide it, or when it requires the
      running system and the scan is against an image.\<close>
  "ValidateRequirements p capab =
     (if (OS (Requirements p) \<noteq> OSAny \<and> OS (Requirements p) \<noteq> OS capab)
         \<or> (Network (Requirements p) \<and> \<not> Network capab)
         \<or> (DirectFS (Requirements p) \<and> \<not> DirectFS capab)
         \<or> (RunningSystem (Requirements p) \<and> \<not> RunningSystem capab)
      then Some (New (''plugin '' @ Name p @ '' has incompatible capability requirements''))
      else None)"

text \<open>One of the three loops of \<^verbatim>\<open>filterByCapabilities\<close>: the plugins whose validation
  returns nil are appended to the result, in the order they are met.\<close>

fun keepCapable :: "'a Plugin_scheme list \<Rightarrow> Capabilities \<Rightarrow> 'a Plugin_scheme list" where
  "keepCapable [] capab = []"
| "keepCapable (ex # rest) capab =
     (if ValidateRequirements ex capab = None then ex # keepCapable rest capab
      else keepCapable rest capab)"

definition filterByCapabilities ::
  "Extractor list \<Rightarrow> StandaloneExtractor list \<Rightarrow> Detector list \<Rightarrow> Capabilities \<Rightarrow>
   Extractor list \<times> StandaloneExtractor list \<times> Detector list" where
  "filterByCapabilities f s d capab =
     (keepCapable f capab, keepCapable s capab, keepCapable d capab)"

datatype ScanStatus = Succeeded | PartiallyFailed | NoResults | Failed

record Status =
  st_Name :: string
  st_Version :: int
  st_Status :: ScanStatus
  st_FailureReason :: string

definition StatusFromErr :: "'a Plugin_scheme \<Rightarrow> bool \<Rightarrow> go_error option \<Rightarrow> Status" where
  \<comment> \<open>Modelled from the spec: \<^verbatim>\<open>plugin.StatusFromErr\<close> is not among the sources.
      Section 4.7: the status follows from whether inventory was found and whether an
      error was recorded; the status carries the plugin's identity and the error string.\<close>
  "StatusFromErr p found e =
     \<lparr> st_Name = Name p, st_Version = Version p,
       st_Status = (case e of
                      None \<Rightarrow> (if found then Succeeded else NoResults)
                    | Some x \<Rightarrow> (if found then PartiallyFailed else Failed)),
       st_FailureReason = (case e of None \<Rightarrow> [] | Some x \<Rightarrow> Error x) \<rparr>"

text \<open>Reading a \<^verbatim>\<open>map[string]bool\<close>: a missing key reads as false.\<close>

definition lookupBool :: "(string \<rightharpoonup> bool) \<Rightarrow> string \<Rightarrow> bool" where
  "lookupBool m k = (case m k of None \<Rightarrow> False | Some b \<Rightarrow> b)"

fun errToExtractorStatus ::
  "Extractor list \<Rightarrow> (string \<rightharpoonup> bool) \<Rightarrow> (string \<rightharpoonup> go_error) \<Rightarrow> Status list" where
  "errToExtractorStatus [] foundInv errors = []"
| "errToExtractorStatus (ex # rest) foundInv errors =
     StatusFromErr ex (lookupBool foundInv (Name ex)) (errors (Name ex))
       # errToExtractorStatus rest foundInv errors"

section \<open>Paths\<close>

text \<open>
  \<^verbatim>\<open>path/filepath\<close> of the Go standard library, on a Unix host (separator \<^verbatim>\<open>/\<close>, no
  volume names). \<^verbatim>\<open>Clean\<close> follows its documented rules on the path's elements: empty
  and \<^verbatim>\<open>.\<close> elements are dropped, a \<^verbatim>\<open>..\<close> element removes the element before it, is
  dropped at the root, and is kept at the front of a relative path.
\<close>

definition Separator :: char where
  "Separator = CHR ''/''"

definition IsAbs :: "string \<Rightarrow> bool" where
  "IsAbs p = HasPrefix p [Separator]"

definition cleanStep :: "bool \<Rightarrow> string list \<Rightarrow> string \<Rightarrow> string list" where
  "cleanStep rooted out el =
     (if el = [] \<or> el = ''.'' then out
      else if el = ''..'' then
        (if out \<noteq> [] \<and> last out \<noteq> ''..'' then butlast out
         else if rooted then out
         else out @ [''..''])
      else out @ [el])"

definition cleanElems :: "bool \<Rightarrow> string \<Rightarrow> string list" where
  "cleanElems rooted p = foldl (cleanStep rooted) [] (Split p Separator)"

definition Clean :: "string \<Rightarrow> string" where
  "Clean p =
     (if p = [] then ''.''
      else if IsAbs p then Separator # Join (cleanElems True p) [Separator]
      else if cleanElems False p = [] then ''.''
      else Join (cleanElems False p) [Separator])"

text \<open>\<^verbatim>\<open>filepath.Join\<close> of two elements: empty elements are ignored, the rest is joined
  with the separator and cleaned.\<close>

definition JoinPath :: "string \<Rightarrow> string \<Rightarrow> string" where
  "JoinPath a b =
     (if a = [] \<and> b = [] then []
      else if a = [] then Clean b
      else if b = [] then Clean a
      else Clean (a @ [Separator] @ b))"

text \<open>\<^verbatim>\<open>filepath.Abs\<close>: an absolute path is cleaned; a relative one is joined to the
  working directory, and fails when \<^verbatim>\<open>os.Getwd\<close> does (the first argument is what
  \<^verbatim>\<open>os.Getwd\<close> returns).\<close>

definition Abs :: "go_error + string \<Rightarrow> string \<Rightarrow> go_error + string" where
  "Abs getwd p =
     (if IsAbs p then Inr (Clean p)
      else (case getwd of Inl e \<Rightarrow> Inl e | Inr wd \<Rightarrow> Inr (JoinPath wd p)))"

text \<open>
  The element loop of \<^verbatim>\<open>filepath.Rel\<close>. \<^verbatim>\<open>b\<close> and \<^verbatim>\<open>t\<close> are what is left of base and
  target from \<^verbatim>\<open>b0\<close> and \<^verbatim>\<open>t0\<close> on. While both are non-empty, the next elements (up to
  the next separator) are compared; equal elements and the separator behind them are
  skipped. The result is what is left of both and \<^verbatim>\<open>base[b0:bi]\<close>: the base
  element at which the loop broke off, empty when the loop ran to the end of a path.
\<close>

function relLoop :: "string \<Rightarrow> string \<Rightarrow> string \<times> string \<times> string" where
  "relLoop b t =
     (if b = [] \<or> t = [] then (b, t, [])
      else if takeWhile (\<lambda>c. c \<noteq> Separator) b \<noteq> takeWhile (\<lambda>c. c \<noteq> Separator) t
        then (b, t, takeWhile (\<lambda>c. c \<noteq> Separator) b)
      else relLoop (drop 1 (dropWhile (\<lambda>c. c \<noteq> Separator) b)) (drop 1 (dropWhile (\<lambda>c. c \<noteq> Separator) t)))"
  by pat_completeness auto
termination
proof (relation "measure (\<lambda>(b, t). length b)")
  show "wf (measure (\<lambda>(b, t). length b))" by simp
next
  fix b t :: string
  assume "\<not> (b = [] \<or> t = [])"
  then have ne: "b \<noteq> []" by simp
  have le: "length (dropWhile (\<lambda>c. c \<noteq> Separator) b) \<le> length b"
    by (rule length_dropWhile_le)
  have "length (drop 1 (dropWhile (\<lambda>c. c \<noteq> Separator) b)) < length b"
  proof (cases "dropWhile (\<lambda>c. c \<noteq> Separator) b")
    case Nil
    show ?thesis unfolding Nil using ne by simp
  next
    case (Cons x xs)
    show ?thesis using le unfolding Cons by simp
  qed
  then show "((drop 1 (dropWhile (\<lambda>c. c \<noteq> Separator) b),
               drop 1 (dropWhile (\<lambda>c. c \<noteq> Separator) t)), b, t)
             \<in> measure (\<lambda>(b, t). length b)"
    by simp
qed

declare relLoop.simps [simp del]

definition Rel :: "string \<Rightarrow> string \<Rightarrow> go_error + string" where
  "Rel basepath targpath =
     (let base = Clean basepath; targ = Clean targpath in
      if targ = base then Inr ''.''
      else
        (let base1 = (if base = ''.'' then [] else base);
             baseSlashed = (base1 \<noteq> [] \<and> hd base1 = Separator);
             targSlashed = (targ \<noteq> [] \<and> hd targ = Separator)
         in if baseSlashed \<noteq> targSlashed
            then Inl (New (''Rel: can't make '' @ targpath @ '' relative to '' @ basepath))
            else (case relLoop base1 targ of
                    (b, t, el) \<Rightarrow>
                      if el = ''..''
                      then Inl (New (''Rel: can't make '' @ targpath @ '' relative to '' @ basepath))
                      else if b \<noteq> []
                      then Inr (''..'' @ concat (replicate (count_list b Separator) (Separator # ''..''))
                                @ (if t \<noteq> [] then Separator # t else []))
                      else Inr t)))"

section \<open>Resolving requested paths against the scan roots\<close>

fun stripFromAtLeastOnePrefix :: "string \<Rightarrow> string list \<Rightarrow> go_error + string" where
  "stripFromAtLeastOnePrefix path [] = Inl ErrNotRelativeToScanRoots"
| "stripFromAtLeastOnePrefix path (prefix # prefixes) =
     (if \<not> HasPrefix path prefix then stripFromAtLeastOnePrefix path prefixes
      else (case Rel prefix path of Inl e \<Rightarrow> Inl e | Inr rel \<Rightarrow> Inr rel))"

fun stripAllPathPrefixes :: "go_error + string \<Rightarrow> string list \<Rightarrow> string list \<Rightarrow> go_error + string list" where
  "stripAllPathPrefixes getwd [] prefixes = Inr []"
| "stripAllPathPrefixes getwd (p # paths) prefixes =
     (case Abs getwd p of
        Inl e \<Rightarrow> Inl e
      | Inr absp \<Rightarrow>
          (case stripFromAtLeastOnePrefix absp prefixes of
             Inl e \<Rightarrow> Inl e
           | Inr rp \<Rightarrow>
               (case stripAllPathPrefixes getwd paths prefixes of
                  Inl e \<Rightarrow> Inl e
                | Inr result \<Rightarrow> Inr (rp # result))))"

fun expandAbsolutePath :: "string \<Rightarrow> string list \<Rightarrow> string list" where
  "expandAbsolutePath scanRoot [] = []"
| "expandAbsolutePath scanRoot (l # paths) = JoinPath scanRoot l # expandAbsolutePath scanRoot paths"

fun pathStringListToMap :: "string list \<Rightarrow> (string \<rightharpoonup> bool)" where
  "pathStringListToMap [] = Map.empty"
| "pathStringListToMap (p # paths) = (pathStringListToMap paths)(p \<mapsto> True)"

section \<open>Regular expressions\<close>

text \<open>
  The fragment of Go's \<^verbatim>\<open>regexp\<close> syntax the engine's patterns use: a literal byte,
  \<^verbatim>\<open>.\<close> (any byte but a newline), one or more bytes of a class (\<^verbatim>\<open>\w+\<close>,
  \<^verbatim>\<open>[^...]+\<close>), the ASCII word boundary \<^verbatim>\<open>\b\<close>, concatenation and alternation.
  \<^verbatim>\<open>MatchString\<close> asks whether the pattern matches somewhere in the string.
\<close>

datatype cclass = WordChar | NotOneOf string

fun inClass :: "cclass \<Rightarrow> char \<Rightarrow> bool" where
  "inClass WordChar c = (c \<in> set (digitChars @ upperLetters @ lowerLetters @ ''_''))"
| "inClass (NotOneOf cs) c = (c \<notin> set cs)"

datatype regex =
    Empty
  | Lit char
  | AnyChar
  | Plus cclass
  | WordBoundary
  | Cat regex regex
  | Alt regex regex

fun isWordAt :: "char option \<Rightarrow> bool" where
  "isWordAt None = False"
| "isWordAt (Some c) = inClass WordChar c"

fun nextChar :: "string \<Rightarrow> char option" where
  "nextChar [] = None"
| "nextChar (c # cs) = Some c"

text \<open>\<^verbatim>\<open>plusFrom cl k s\<close>: one or more bytes of the class at the front of \<^verbatim>\<open>s\<close>, and
  then the rest of the pattern (\<^verbatim>\<open>k\<close>, given the byte before and what is left).\<close>

fun plusFrom :: "cclass \<Rightarrow> (char option \<Rightarrow> string \<Rightarrow> bool) \<Rightarrow> string \<Rightarrow> bool" where
  "plusFrom cl k [] = False"
| "plusFrom cl k (c # cs) =
     (if inClass cl c then (if k (Some c) cs then True else plusFrom cl k cs) else False)"

primrec matchAt :: "regex \<Rightarrow> (char option \<Rightarrow> string \<Rightarrow> bool) \<Rightarrow> char option \<Rightarrow> string \<Rightarrow> bool" where
  "matchAt Empty = (\<lambda>k prev s. k prev s)"
| "matchAt (Lit c) = (\<lambda>k prev s. case s of [] \<Rightarrow> False | x # xs \<Rightarrow> if x = c then k (Some x) xs else False)"
| "matchAt AnyChar = (\<lambda>k prev s. case s of [] \<Rightarrow> False | x # xs \<Rightarrow> if x = CHR 0x0A then False else k (Some x) xs)"
| "matchAt (Plus cl) = (\<lambda>k prev s. plusFrom cl k s)"
| "matchAt WordBoundary = (\<lambda>k prev s. if isWordAt prev = isWordAt (nextChar s) then False else k prev s)"
| "matchAt (Cat a b) = (\<lambda>k prev s. matchAt a (matchAt b k) prev s)"
| "matchAt (Alt a b) = (\<lambda>k prev s. if matchAt a k prev s then True else matchAt b k prev s)"

fun searchFrom :: "regex \<Rightarrow> char option \<Rightarrow> string \<Rightarrow> bool" where
  "searchFrom re prev [] = matchAt re (\<lambda>p r. True) prev []"
| "searchFrom re prev (c # cs) =
     (if matchAt re (\<lambda>p r. True) prev (c # cs) then True else searchFrom re (Some c) cs)"

definition MatchString :: "regex \<Rightarrow> string \<Rightarrow> bool" where
  "MatchString re s = searchFrom re None s"

fun lit :: "string \<Rightarrow> regex" where
  "lit [] = Empty"
| "lit (c # cs) = Cat (Lit c) (lit cs)"

section \<open>The filesystem\<close>

definition ModeDir :: FileMode where "ModeDir = 0x80000000"
definition ModeSymlink :: FileMode where "ModeSymlink = 0x08000000"
definition ModeDevice :: FileMode where "ModeDevice = 0x04000000"
definition ModeNamedPipe :: FileMode where "ModeNamedPipe = 0x02000000"
definition ModeSocket :: FileMode where "ModeSocket = 0x01000000"
definition ModeCharDevice :: FileMode where "ModeCharDevice = 0x00200000"
definition ModeIrregular :: FileMode where "ModeIrregular = 0x00080000"

definition ModeType :: FileMode where
  "ModeType = ModeDir OR ModeSymlink OR ModeNamedPipe OR ModeSocket OR ModeDevice
              OR ModeCharDevice OR ModeIrregular"

definition IsDir :: "FileMode \<Rightarrow> bool" where
  "IsDir m = (m AND ModeDir \<noteq> 0)"

definition IsRegular :: "FileMode \<Rightarrow> bool" where
  "IsRegular m = (m AND ModeType = 0)"

text \<open>A directory entry as the walk hands it to its callback: \<^verbatim>\<open>d.Type()\<close> are the type
  bits of the entry's mode.\<close>

record DirEntry =
  de_Name :: string
  de_Type :: FileMode

definition FileInfoToDirEntry :: "FileInfo \<Rightarrow> DirEntry" where
  "FileInfoToDirEntry info = \<lparr> de_Name = fi_Name info, de_Type = fi_Mode info AND ModeType \<rparr>"

text \<open>An open file: what \<^verbatim>\<open>Stat\<close> on the handle returns, and the content its reader
  delivers.\<close>

record File =
  f_Stat :: "go_error + FileInfo"
  f_Contents :: string

text \<open>
  What a traversal from \<^verbatim>\<open>"."\<close> meets: every entry has its type bits, the I/O error the
  filesystem reports for it (if any), and, for a directory, its entries in the order the
  filesystem lists them.
\<close>

datatype DirTree = Entry FileMode "go_error option" DirList
  and DirList = NoEntries | Listed string DirTree DirList

text \<open>An \<^verbatim>\<open>fs.FS\<close>: \<^verbatim>\<open>fs.Stat(fsys, name)\<close>, \<^verbatim>\<open>fsys.Open(name)\<close>, and the tree a
  traversal sees.\<close>

record FS =
  Stat :: "string \<Rightarrow> go_error + FileInfo"
  Open :: "string \<Rightarrow> go_error + File"
  Tree :: DirTree

section \<open>The walk context and the per-entry handler\<close>

datatype LogLevel = Debug | InfoLevel | Warn | ErrorLevel

datatype StatEvent = AfterInodeVisited string | AfterExtractorRun string "go_error option"

text \<open>
  A \<^verbatim>\<open>context.Context\<close> is live, cancelled, or past its deadline; \<^verbatim>\<open>Err()\<close> is nil,
  \<^verbatim>\<open>context.Canceled\<close> or \<^verbatim>\<open>context.DeadlineExceeded\<close>.
\<close>

datatype ctx_state = Live | CtxCanceled | CtxDeadlineExceeded

fun Err :: "ctx_state \<Rightarrow> go_error option" where
  "Err Live = None"
| "Err CtxCanceled = Some Canceled"
| "Err CtxDeadlineExceeded = Some DeadlineExceeded"

text \<open>
  \<^verbatim>\<open>walkContext\<close>. The scan context is cancelled from outside the walk, so it is known
  by its state over the walk: \<^verbatim>\<open>ctx\<close> gives the state once that many \<^verbatim>\<open>Extract\<close>
  calls have been made. A context that is cancelled while the third call runs is
  live at 0, 1 and 2 and cancelled from 3 on. \<^verbatim>\<open>stats\<close> is the sequence of calls the metrics hook has
  received: the model is of runs with a collector installed (on a nil \<^verbatim>\<open>Stats\<close> the
  first call of the hook panics). \<^verbatim>\<open>logs\<close> is the lines the handler has logged. The fields of the status printer
  (\<^verbatim>\<open>lastStatus\<close>, \<^verbatim>\<open>lastInodes\<close>, \<^verbatim>\<open>lastExtracts\<close>) are read and written by
  \<^verbatim>\<open>printStatus\<close> alone, which prints a line every two seconds of wall-clock time;
  they are left out.
\<close>

record walkContext =
  ctx :: "int \<Rightarrow> ctx_state"
  stats :: "StatEvent list"
  extractors :: "Extractor list"
  fs :: "FS option"
  scanRoot :: string
  filesToExtract :: "string list"
  dirsToSkip :: "string \<rightharpoonup> bool"
  skipDirRegex :: "regex option"
  maxInodes :: int
  inodesVisited :: int
  storeAbsolutePath :: bool
  inventory :: "Inventory list"
  errors :: "string \<rightharpoonup> go_error"
  foundInv :: "string \<rightharpoonup> bool"
  readSymlinks :: bool
  extractCalls :: int
  logs :: "(LogLevel \<times> string) list"

definition ctxErr :: "walkContext \<Rightarrow> go_error option" where
  \<comment> \<open>\<^verbatim>\<open>wc.ctx.Err()\<close>, now\<close>
  "ctxErr wc = Err (ctx wc (extractCalls wc))"

definition shouldSkipDir :: "walkContext \<Rightarrow> string \<Rightarrow> bool" where
  "shouldSkipDir wc path =
     (if path \<in> dom (dirsToSkip wc) then True
      else (case skipDirRegex wc of
              Some re \<Rightarrow> MatchString re path
            | None \<Rightarrow> False))"

text \<open>The body of the loop over a non-empty result list: the record gets its originating
  plugin and, when configured, absolute locations.\<close>

definition ownInventory :: "walkContext \<Rightarrow> Extractor \<Rightarrow> Inventory \<Rightarrow> Inventory" where
  "ownInventory wc ex r =
     (let r1 = r\<lparr> inv_Extractor := Some (Name ex) \<rparr>
      in if storeAbsolutePath wc
         then r1\<lparr> inv_Locations := expandAbsolutePath (scanRoot wc) (inv_Locations r1) \<rparr>
         else r1)"

definition runExtractor :: "Extractor \<Rightarrow> string \<Rightarrow> FileInfo \<Rightarrow> walkContext \<Rightarrow> walkContext option" where
  "runExtractor ex path fileinfo wc =
     (case FileRequired ex path fileinfo of
        None \<Rightarrow> None
      | Some False \<Rightarrow> Some wc
      | Some True \<Rightarrow>
          (case fs wc of
             None \<Rightarrow> None
           | Some fsys \<Rightarrow>
               (case Open fsys path of
                  Inl e \<Rightarrow> Some (wc\<lparr> errors := addErrToMap (errors wc) (Name ex) (Errorf_Open path e) \<rparr>)
                | Inr rc \<Rightarrow>
                    (case f_Stat rc of
                       Inl e \<Rightarrow> Some (wc\<lparr> errors := addErrToMap (errors wc) (Name ex) (Errorf_stat path e) \<rparr>)
                     | Inr info \<Rightarrow>
                         (case Extract ex (ctxErr wc)
                                 \<lparr> Path = path, ScanRoot = scanRoot wc, Info = info, Reader = f_Contents rc \<rparr> of
                            None \<Rightarrow> None
                          | Some res \<Rightarrow>
                              (let wc1 = wc\<lparr> extractCalls := extractCalls wc + 1 \<rparr>;
                                   wc2 = wc1\<lparr> stats := stats wc1 @ [AfterExtractorRun (Name ex) (err res)] \<rparr>;
                                   wc3 = (case err res of
                                            None \<Rightarrow> wc2
                                          | Some e \<Rightarrow> wc2\<lparr> errors := addErrToMap (errors wc2) (Name ex) (Errorf_path path e) \<rparr>)
                               in if results res \<noteq> []
                                  then Some (wc3\<lparr> foundInv := (foundInv wc3)(Name ex \<mapsto> True),
                                                  inventory := inventory wc3 @ map (ownInventory wc3 ex) (results res) \<rparr>)
                                  else Some wc3))))))"

text \<open>The loop \<^verbatim>\<open>for _, ex := range wc.extractors\<close> at the end of the handler.\<close>

fun runExtractors :: "Extractor list \<Rightarrow> string \<Rightarrow> FileInfo \<Rightarrow> walkContext \<Rightarrow> walkContext option" where
  "runExtractors [] path fileinfo wc = Some wc"
| "runExtractors (ex # rest) path fileinfo wc =
     (case runExtractor ex path fileinfo wc of
        None \<Rightarrow> None
      | Some wc1 \<Rightarrow> runExtractors rest path fileinfo wc1)"

text \<open>\<^verbatim>\<open>%d\<close> of an \<^verbatim>\<open>int\<close>: the decimal digits, after a minus sign when negative.\<close>

fun natToString :: "nat \<Rightarrow> string" where
  "natToString n =
     (if n < 10 then [digitChars ! n]
      else natToString (n div 10) @ [digitChars ! (n mod 10)])"

declare natToString.simps [simp del]

definition Itoa :: "int \<Rightarrow> string" where
  "Itoa i = (if i < 0 then CHR ''-'' # natToString (nat (- i)) else natToString (nat i))"

definition ErrMaxInodes :: "int \<Rightarrow> go_error" where
  \<comment> \<open>\<^verbatim>\<open>fmt.Errorf("maxInodes (%d) exceeded", wc.maxInodes)\<close>\<close>
  "ErrMaxInodes n = New (''maxInodes ('' @ Itoa n @ '') exceeded'')"

text \<open>
  \<^verbatim>\<open>handleFile\<close>, the callback of the walk. It returns the error the walk is to see
  (nil, \<^verbatim>\<open>fs.SkipDir\<close> or a fatal error) and the walk context as it leaves it; \<^verbatim>\<open>None\<close>
  is a panic (a nil directory entry without an error, a nil filesystem, a panicking
  plugin).
\<close>

definition handleFile ::
  "string \<Rightarrow> DirEntry option \<Rightarrow> go_error option \<Rightarrow> walkContext \<Rightarrow> (go_error option \<times> walkContext) option" where
  "handleFile path d fserr wc =
     (let wc1 = wc\<lparr> inodesVisited := inodesVisited wc + 1 \<rparr>
      in if maxInodes wc1 > 0 \<and> inodesVisited wc1 > maxInodes wc1
         then Some (Some (ErrMaxInodes (maxInodes wc1)), wc1)
         else
           (let wc2 = wc1\<lparr> stats := stats wc1 @ [AfterInodeVisited path] \<rparr>
            in case ctxErr wc2 of
                 Some e \<Rightarrow> Some (Some e, wc2)
               | None \<Rightarrow>
                   (case fserr of
                      Some fe \<Rightarrow>
                        Some (None, wc2\<lparr> logs := logs wc2 @
                                 [(if IsPermission fe then Debug else ErrorLevel, ''fserr: '' @ Error fe)] \<rparr>)
                    | None \<Rightarrow>
                        (case d of
                           None \<Rightarrow> None
                         | Some de \<Rightarrow>
                             if IsDir (de_Type de)
                             then (if shouldSkipDir wc2 path then Some (Some SkipDir, wc2)
                                   else Some (None, wc2))
                             else if \<not> IsRegular (de_Type de)
                                     \<and> (\<not> readSymlinks wc2 \<or> de_Type de AND ModeType \<noteq> ModeSymlink)
                             then Some (None, wc2)
                             else
                               (case fs wc2 of
                                  None \<Rightarrow> None
                                | Some fsys \<Rightarrow>
                                    (case Stat fsys path of
                                       Inl e \<Rightarrow>
                                         Some (None, wc2\<lparr> logs := logs wc2 @
                                                  [(Warn, ''os.Stat('' @ path @ ''): '' @ Error e)] \<rparr>)
                                     | Inr fileinfo \<Rightarrow>
                                         (case runExtractors (extractors wc2) path fileinfo wc2 of
                                            None \<Rightarrow> None
                                          | Some wc3 \<Rightarrow> Some (None, wc3))))))))"

text \<open>The budget test of the handler, on the walk context as the handler finds it: the
  count after the increment exceeds a positive budget.\<close>

definition overBudget :: "walkContext \<Rightarrow> bool" where
  "overBudget wc = (0 < maxInodes wc \<and> maxInodes wc < inodesVisited wc + 1)"

section \<open>The walks\<close>

text \<open>\<^verbatim>\<open>walkIndividualFiles\<close>: every listed path is looked up and handed to the callback;
  the first error the callback returns ends the loop.\<close>

fun walkIndividualFiles ::
  "FS \<Rightarrow> string list \<Rightarrow>
   (string \<Rightarrow> DirEntry option \<Rightarrow> go_error option \<Rightarrow> 'w \<Rightarrow> (go_error option \<times> 'w) option) \<Rightarrow>
   'w \<Rightarrow> (go_error option \<times> 'w) option" where
  "walkIndividualFiles fsys [] fn w = Some (None, w)"
| "walkIndividualFiles fsys (p # paths) fn w =
     (case (case Stat fsys p of
              Inl e \<Rightarrow> fn p None (Some e) w
            | Inr info \<Rightarrow> fn p (Some (FileInfoToDirEntry info)) None w) of
        None \<Rightarrow> None
      | Some (Some e, w1) \<Rightarrow> Some (Some e, w1)
      | Some (None, w1) \<Rightarrow> walkIndividualFiles fsys paths fn w1)"

text \<open>The body of that loop with the handler as its callback: one listed path is looked
  up and handed to \<^verbatim>\<open>handleFile\<close>.\<close>

definition visit :: "FS \<Rightarrow> string \<Rightarrow> walkContext \<Rightarrow> (go_error option \<times> walkContext) option" where
  "visit fsys p wc =
     (case Stat fsys p of
        Inl e \<Rightarrow> handleFile p None (Some e) wc
      | Inr info \<Rightarrow> handleFile p (Some (FileInfoToDirEntry info)) None wc)"

text \<open>\<^verbatim>\<open>path.Join\<close> of a directory the walk is in and the name of one of its entries.\<close>

definition childPath :: "string \<Rightarrow> string \<Rightarrow> string" where
  "childPath dir name = (if dir = ''.'' then name else dir @ [Separator] @ name)"

fun walkDir ::
  "string \<Rightarrow> DirTree \<Rightarrow>
   (string \<Rightarrow> DirEntry option \<Rightarrow> go_error option \<Rightarrow> 'w \<Rightarrow> (go_error option \<times> 'w) option) \<Rightarrow>
   'w \<Rightarrow> (go_error option \<times> 'w) option"
and walkEntries ::
  "string \<Rightarrow> DirList \<Rightarrow>
   (string \<Rightarrow> DirEntry option \<Rightarrow> go_error option \<Rightarrow> 'w \<Rightarrow> (go_error option \<times> 'w) option) \<Rightarrow>
   'w \<Rightarrow> (go_error option \<times> 'w) option" where
  "walkDir path (Entry m ioerr entries) fn w =
     (case fn path (Some \<lparr> de_Name = path, de_Type = m AND ModeType \<rparr>) ioerr w of
        None \<Rightarrow> None
      | Some (Some e, w1) \<Rightarrow> if e = SkipDir then Some (None, w1) else Some (Some e, w1)
      | Some (None, w1) \<Rightarrow>
          if IsDir m \<and> ioerr = None then walkEntries path entries fn w1 else Some (None, w1))"
| "walkEntries dir NoEntries fn w = Some (None, w)"
| "walkEntries dir (Listed name t rest) fn w =
     (case walkDir (childPath dir name) t fn w of
        None \<Rightarrow> None
      | Some (Some e, w1) \<Rightarrow> Some (Some e, w1)
      | Some (None, w1) \<Rightarrow> walkEntries dir rest fn w1)"

definition WalkDirUnsorted ::
  "FS \<Rightarrow> string \<Rightarrow>
   (string \<Rightarrow> DirEntry option \<Rightarrow> go_error option \<Rightarrow> 'w \<Rightarrow> (go_error option \<times> 'w) option) \<Rightarrow>
   'w \<Rightarrow> (go_error option \<times> 'w) option" where
  \<comment> \<open>Modelled from the spec: \<^verbatim>\<open>internal.WalkDirUnsorted\<close> is not among the sources.
      Section 4.3: the entries are visited from the root of the walk on, in pre-order and
      in the order the filesystem lists them, each directory listed once; the I/O error
      the filesystem reports for an entry is handed to the handler with it; when the
      handler returns the skip sentinel the subtree is omitted and the walk goes on; any
      other error the handler returns ends the walk and is returned.\<close>
  "WalkDirUnsorted fsys root fn w = walkDir root (Tree fsys) fn w"

section \<open>A run over one scan root\<close>

record Config =
  Extractors :: "Extractor list"
  ScanRoots :: "string list"
  ConfigFS :: "FS option"
  FilesToExtract :: "string list"
  DirsToSkip :: "string list"
  SkipDirRegex :: "regex option"
  ReadSymlinks :: bool
  MaxInodes :: int
  StoreAbsolutePath :: bool

text \<open>\<^verbatim>\<open>InitWalkContext\<close>; \<^verbatim>\<open>getwd\<close> is what \<^verbatim>\<open>os.Getwd\<close> returns on this host.\<close>

definition InitWalkContext ::
  "go_error + string \<Rightarrow> (int \<Rightarrow> ctx_state) \<Rightarrow> Config \<Rightarrow> string list \<Rightarrow> go_error + walkContext" where
  "InitWalkContext getwd c config absScanRoots =
     (case stripAllPathPrefixes getwd (FilesToExtract config) absScanRoots of
        Inl e \<Rightarrow> Inl e
      | Inr files \<Rightarrow>
          (case stripAllPathPrefixes getwd (DirsToSkip config) absScanRoots of
             Inl e \<Rightarrow> Inl e
           | Inr dirs \<Rightarrow>
               Inr \<lparr> ctx = c, stats = [], extractors = Extractors config, fs = None,
                     scanRoot = [], filesToExtract = files,
                     dirsToSkip = pathStringListToMap dirs,
                     skipDirRegex = SkipDirRegex config,
                     maxInodes = MaxInodes config, inodesVisited = 0,
                     storeAbsolutePath = StoreAbsolutePath config,
                     inventory = [], errors = Map.empty, foundInv = Map.empty,
                     readSymlinks = ReadSymlinks config, extractCalls = 0, logs = [] \<rparr>))"

definition UpdateScanRoot :: "string \<Rightarrow> FS \<Rightarrow> walkContext \<Rightarrow> walkContext" where
  "UpdateScanRoot absRoot fsys wc = wc\<lparr> scanRoot := absRoot, fs := Some fsys \<rparr>"

text \<open>
  \<^verbatim>\<open>RunFS\<close> returns the inventory, the statuses and the walk's error, and leaves the walk
  context as the walk left it (the fourth component). \<^verbatim>\<open>None\<close> is a panic.
\<close>

definition RunFS ::
  "Config \<Rightarrow> walkContext \<Rightarrow> (Inventory list \<times> Status list \<times> go_error option \<times> walkContext) option" where
  "RunFS config wc =
     (if fs wc = None then Some ([], [], Some (New ''walk context is nil''), wc)
      else
        (case ConfigFS config of
           None \<Rightarrow> None
         | Some fsys \<Rightarrow>
             (case (if filesToExtract wc \<noteq> []
                    then walkIndividualFiles fsys (filesToExtract wc) handleFile wc
                    else WalkDirUnsorted fsys ''.'' handleFile wc) of
                None \<Rightarrow> None
              | Some (e, wc1) \<Rightarrow>
                  Some (inventory wc1,
                        errToExtractorStatus (Extractors config) (foundInv wc1) (errors wc1),
                        e, wc1))))"

section \<open>The homebrew extractor\<close>

definition caskPath :: string where "caskPath = ''caskroom''"
definition cellarPath :: string where "cellarPath = ''cellar''"
definition cellarFileName :: string where "cellarFileName = ''install_receipt.json''"
definition caskFileName :: string where "caskFileName = ''.wrapper.sh''"

record BrewPath =
  AppName :: string
  AppVersion :: string
  AppFile :: string

text \<open>The pattern
  \<^verbatim>\<open>(\bcellar|\bcaskroom)\/\w+\/[^A-Za-z \/]+\/(\binstall_receipt.json|(\w+.\bwrapper.sh))\<close>.\<close>

fun cats :: "regex list \<Rightarrow> regex" where
  "cats [] = Empty"
| "cats (x # xs) = Cat x (cats xs)"

definition r :: regex where
  "r = cats
     [Alt (Cat WordBoundary (lit ''cellar'')) (Cat WordBoundary (lit ''caskroom'')),
      Lit CHR ''/'',
      Plus WordChar,
      Lit CHR ''/'',
      Plus (NotOneOf (upperLetters @ lowerLetters @ '' /'')),
      Lit CHR ''/'',
      Alt (cats [WordBoundary, lit ''install_receipt'', AnyChar, lit ''json''])
          (cats [Plus WordChar, AnyChar, WordBoundary, lit ''wrapper'', AnyChar, lit ''sh''])]"

text \<open>\<^verbatim>\<open>SplitPath\<close> indexes the last three pieces of the path; with fewer than three
  pieces the index is out of range and the function panics.\<close>

definition SplitPath :: "string \<Rightarrow> BrewPath option" where
  "SplitPath path =
     (let pathParts = Split path CHR ''/''; n = length pathParts
      in if n < 3 then None
         else Some \<lparr> AppName = ToLower (pathParts ! (n - 3)),
                     AppVersion = ToLower (pathParts ! (n - 2)),
                     AppFile = ToLower (pathParts ! (n - 1)) \<rparr>)"

definition homebrew_FileRequired :: "string \<Rightarrow> FileInfo \<Rightarrow> bool option" where
  "homebrew_FileRequired path fileinfo =
     (let filePath = ToLower path
      in if \<not> MatchString r filePath then Some False
         else (case SplitPath filePath of
                 None \<Rightarrow> None
               | Some p \<Rightarrow>
                   if Contains filePath cellarPath \<and> AppFile p \<noteq> cellarFileName then Some False
                   else if Contains filePath caskPath \<and> AppFile p \<noteq> AppName p @ caskFileName then Some False
                   else Some True))"

definition homebrew_Extract :: "go_error option \<Rightarrow> ScanInput \<Rightarrow> ExtractResult option" where
  "homebrew_Extract c input =
     (case SplitPath (Path input) of
        None \<Rightarrow> None
      | Some p \<Rightarrow>
          Some \<lparr> results = [\<lparr> inv_Name = AppName p, inv_Version = AppVersion p,
                              inv_Locations = [Path input], inv_Extractor = None \<rparr>],
                 err = None \<rparr>)"

definition homebrew :: Extractor where
  "homebrew = \<lparr> Name = ''os/homebrew'', Version = 0,
                Requirements = \<lparr> OS = OSMac, Network = False, DirectFS = False, RunningSystem = False \<rparr>,
                FileRequired = homebrew_FileRequired, Extract = homebrew_Extract \<rparr>"

section \<open>Fixtures\<close>

text \<open>
  The tree of the scenarios: under the scan root \<^verbatim>\<open>/tmp/fixtures/A\<close> the one regular
  file \<^verbatim>\<open>cellar/tree/1.1/install_receipt.json\<close> and the directories above it.
\<close>

definition receiptPath :: string where
  "receiptPath = ''cellar/tree/1.1/install_receipt.json''"

definition receiptInfo :: FileInfo where
  "receiptInfo = \<lparr> fi_Name = ''install_receipt.json'', fi_Size = 2, fi_Mode = 0x1A4 \<rparr>"

definition dirInfo :: "string \<Rightarrow> FileInfo" where
  "dirInfo name = \<lparr> fi_Name = name, fi_Size = 4096, fi_Mode = ModeDir OR 0x1ED \<rparr>"

definition notExist :: "string \<Rightarrow> string \<Rightarrow> go_error" where
  "notExist op p = PathError op p (New ''file does not exist'')"

definition fixtureA :: FS where
  "fixtureA =
     \<lparr> Stat = (\<lambda>p. if p = receiptPath then Inr receiptInfo
                    else if p = ''.'' then Inr (dirInfo ''.'')
                    else if p = ''cellar'' then Inr (dirInfo ''cellar'')
                    else if p = ''cellar/tree'' then Inr (dirInfo ''tree'')
                    else if p = ''cellar/tree/1.1'' then Inr (dirInfo ''1.1'')
                    else Inl (notExist ''stat'' p)),
       Open = (\<lambda>p. if p = receiptPath
                    then Inr \<lparr> f_Stat = Inr receiptInfo, f_Contents = ''{}'' \<rparr>
                    else Inl (notExist ''open'' p)),
       Tree = Entry (ModeDir OR 0x1ED) None
               (Listed ''cellar'' (Entry (ModeDir OR 0x1ED) None
                 (Listed ''tree'' (Entry (ModeDir OR 0x1ED) None
                   (Listed ''1.1'' (Entry (ModeDir OR 0x1ED) None
                     (Listed ''install_receipt.json'' (Entry 0x1A4 None NoEntries) NoEntries))
                    NoEntries))
                  NoEntries))
                NoEntries) \<rparr>"

definition noCaps :: Capabilities where
  "noCaps = \<lparr> OS = OSAny, Network = False, DirectFS = False, RunningSystem = False \<rparr>"

text \<open>An extractor that wants every file and finds nothing, and one that wants no file.\<close>

definition idle :: "string \<Rightarrow> Extractor" where
  "idle name = \<lparr> Name = name, Version = 1, Requirements = noCaps,
                 FileRequired = (\<lambda>p i. Some True),
                 Extract = (\<lambda>c input. Some \<lparr> results = [], err = None \<rparr>) \<rparr>"

definition blind :: "string \<Rightarrow> Extractor" where
  "blind name = \<lparr> Name = name, Version = 1, Requirements = noCaps,
                  FileRequired = (\<lambda>p i. Some False),
                  Extract = (\<lambda>c input. Some \<lparr> results = [], err = None \<rparr>) \<rparr>"

text \<open>An extractor that reports one package and an error for every file.\<close>

definition partial :: "string \<Rightarrow> Extractor" where
  "partial name = \<lparr> Name = name, Version = 1, Requirements = noCaps,
                    FileRequired = (\<lambda>p i. Some True),
                    Extract = (\<lambda>c input. Some \<lparr> results = [\<lparr> inv_Name = ''pkg'', inv_Version = ''1'',
                                                                inv_Locations = [Path input],
                                                                inv_Extractor = None \<rparr>],
                                                   err = Some (New ''truncated'') \<rparr>) \<rparr>"

definition configA :: "Extractor list \<Rightarrow> Config" where
  "configA exs = \<lparr> Extractors = exs, ScanRoots = [''/tmp/fixtures/A''], ConfigFS = Some fixtureA,
                   FilesToExtract = [], DirsToSkip = [], SkipDirRegex = None,
                   ReadSymlinks = False, MaxInodes = 0, StoreAbsolutePath = False \<rparr>"

text \<open>A walk context over the fixture, as \<^verbatim>\<open>InitWalkContext\<close> and \<^verbatim>\<open>UpdateScanRoot\<close>
  leave it, with the given context, extractors and inode budget.\<close>

definition wcA :: "(int \<Rightarrow> ctx_state) \<Rightarrow> Extractor list \<Rightarrow> int \<Rightarrow> walkContext" where
  "wcA c exs budget =
     \<lparr> ctx = c, stats = [], extractors = exs, fs = Some fixtureA,
       scanRoot = ''/tmp/fixtures/A'', filesToExtract = [],
       dirsToSkip = Map.empty, skipDirRegex = None,
       maxInodes = budget, inodesVisited = 0, storeAbsolutePath = False,
       inventory = [], errors = Map.empty, foundInv = Map.empty,
       readSymlinks = False, extractCalls = 0, logs = [] \<rparr>"

text \<open>An extractor that fails on every file and finds nothing.\<close>

definition broken :: "string \<Rightarrow> Extractor" where
  "broken name = \<lparr> Name = name, Version = 1, Requirements = noCaps,
                   FileRequired = (\<lambda>p i. Some True),
                   Extract = (\<lambda>c input. Some \<lparr> results = [], err = Some (New ''unreadable'') \<rparr>) \<rparr>"

definition linuxHost :: Capabilities where
  "linuxHost = \<lparr> OS = OSLinux, Network = True, DirectFS = True, RunningSystem = True \<rparr>"

text \<open>Ten paths to look at, five of them in the fixture.\<close>

definition tenPaths :: "string list" where
  "tenPaths = [''.'', ''cellar'', ''cellar/tree'', ''cellar/tree/1.1'',
               ''cellar/tree/1.1/install_receipt.json'', ''a'', ''b'', ''c'', ''d'', ''e'']"

text \<open>A scan context that is cancelled while the first \<^verbatim>\<open>Extract\<close> call runs.\<close>

definition cancelledDuringFirstCall :: "int \<Rightarrow> ctx_state" where
  "cancelledDuringFirstCall n = (if 1 \<le> n then CtxCanceled else Live)"

text \<open>The fixture with one more entry, \<^verbatim>\<open>secret\<close>, that the filesystem refuses to stat.\<close>

definition fixtureB :: FS where
  "fixtureB = fixtureA\<lparr> Stat := (\<lambda>p. if p = ''secret''
                                       then Inl (PathError ''stat'' ''secret'' ErrPermission)
                                       else Stat fixtureA p) \<rparr>"

definition wcB :: "(int \<Rightarrow> ctx_state) \<Rightarrow> Extractor list \<Rightarrow> int \<Rightarrow> walkContext" where
  "wcB c exs budget = (wcA c exs budget)\<lparr> fs := Some fixtureB \<rparr>"

section \<open>Error chaining keeps every error\<close>


lemma Error_Errorf_chain: "Error (Errorf_chain a b) = Error a @ newline @ Error b"
  by (simp add: Errorf_chain_def newline_def)


lemma Join_Cons: "Join (p # ps) s = (if ps = [] then p else p @ s @ Join ps s)"
  by (cases ps) simp_all


lemma Error_foldl_chain:
  "Error (foldl Errorf_chain e es) = Join (map Error (e # es)) newline"
proof (induction es arbitrary: e)
  case Nil
  show ?case by simp
next
  case (Cons x xs)
  have "Error (foldl Errorf_chain (Errorf_chain e x) xs)
        = Join (map Error (Errorf_chain e x # xs)) newline"
    by (rule Cons.IH)
  then show ?case
    by (simp add: Join_Cons Error_Errorf_chain)
qed


lemma recordAll_key:
  "recordAll m recs key =
     (case errorsOf key recs of
        [] \<Rightarrow> m key
      | e # es \<Rightarrow> (case m key of None \<Rightarrow> Some (foldl Errorf_chain e es)
                   | Some prev \<Rightarrow> Some (foldl Errorf_chain prev (e # es))))"
proof (induction recs arbitrary: m)
  case Nil
  show ?case by (simp add: errorsOf_def)
next
  case (Cons x xs)
  obtain k e where x: "x = (k, e)" by (cases x)
  show ?case
    unfolding x
    by (auto simp add: Cons.IH errorsOf_def addErrToMap_def split: option.splits list.splits)
qed


lemma HasPrefix_append: "HasPrefix (sub @ b) sub"
  by (simp add: HasPrefix_def)


lemma HasPrefix_Contains: "HasPrefix s sub \<Longrightarrow> Contains s sub"
  by (cases s) (simp_all add: HasPrefix_def)


lemma Contains_append: "Contains (a @ sub @ b) sub"
  by (induction a) (simp_all add: HasPrefix_Contains HasPrefix_append)


lemma recordAll_empty_none:
  "errorsOf key recs = [] \<Longrightarrow> recordAll Map.empty recs key = None"
  by (simp add: recordAll_key)


lemma recordAll_empty_some:
  assumes "errorsOf key recs \<noteq> []"
  shows "\<exists>e. recordAll Map.empty recs key = Some e \<and>
             Error e = Join (map Error (errorsOf key recs)) newline"
proof -
  from assms obtain e es where es: "errorsOf key recs = e # es"
    by (cases "errorsOf key recs") auto
  have "recordAll Map.empty recs key = Some (foldl Errorf_chain e es)"
    by (simp add: recordAll_key es)
  moreover have "Error (foldl Errorf_chain e es) = Join (map Error (errorsOf key recs)) newline"
    by (simp only: es Error_foldl_chain)
  ultimately show ?thesis by blast
qed


lemma two_failures_both_paths:
  assumes "recordAll Map.empty [(key, Errorf_path p1 e1), (key, Errorf_path p2 e2)] key = Some e"
  shows "Contains (Error e) p1 \<and> Contains (Error e) p2"
proof -
  have e: "e = Errorf_chain (Errorf_path p1 e1) (Errorf_path p2 e2)"
    using assms by (simp add: addErrToMap_def)
  have m1: "Error e = [] @ p1 @ ('': '' @ Error e1 @ newline @ p2 @ '': '' @ Error e2)"
    by (simp add: e Error_Errorf_chain Errorf_path_def)
  have m2: "Error e = (p1 @ '': '' @ Error e1 @ newline) @ p2 @ ('': '' @ Error e2)"
    by (simp add: e Error_Errorf_chain Errorf_path_def)
  have "Contains (Error e) p1"
    unfolding m1 by (rule Contains_append)
  moreover have "Contains (Error e) p2"
    unfolding m2 by (rule Contains_append)
  ultimately show ?thesis by simp
qed


text \<open>
  C4. Whatever sequence of (plugin, error) pairs is recorded through \<^verbatim>\<open>addErrToMap\<close>
  into an empty map, in the end the map has no entry for a plugin nothing was recorded
  for, and for every other plugin exactly one error, whose message is the messages of
  all the errors recorded for that plugin, in recording order, joined by newlines. In
  particular, when the extraction of two files fails for one plugin (each failure
  recorded as \<^verbatim>\<open>fmt.Errorf("%s: %w", path, err)\<close>), the message of the plugin's one
  error contains both paths.
\<close>


theorem addErrToMap_chains_all:
  "(errorsOf key recs = [] \<longrightarrow> recordAll Map.empty recs key = None) \<and>
   (errorsOf key recs \<noteq> [] \<longrightarrow>
      (\<exists>e. recordAll Map.empty recs key = Some e \<and>
           Error e = Join (map Error (errorsOf key recs)) newline)) \<and>
   (\<forall>e. recordAll Map.empty [(key, Errorf_path p1 e1), (key, Errorf_path p2 e2)] key = Some e \<longrightarrow>
        Contains (Error e) p1 \<and> Contains (Error e) p2)"
  using recordAll_empty_none recordAll_empty_some two_failures_both_paths by blast


theorem addErrToMap_chains_all_witness:
  "errorsOf ''os/homebrew'' [(''os/homebrew'', Errorf_path ''a/x'' (New ''bad'')),
                              (''os/homebrew'', Errorf_path ''b/y'' (New ''worse''))] \<noteq> [] \<and>
   (\<exists>e. recordAll Map.empty [(''os/homebrew'', Errorf_path ''a/x'' (New ''bad'')),
                              (''os/homebrew'', Errorf_path ''b/y'' (New ''worse''))] ''os/homebrew'' = Some e \<and>
        Error e = ''a/x: bad'' @ newline @ ''b/y: worse'' \<and>
        Contains (Error e) ''a/x'' \<and> Contains (Error e) ''b/y'')"
  using addErrToMap_chains_all [of "''os/homebrew''"
      "[(''os/homebrew'', Errorf_path ''a/x'' (New ''bad'')),
        (''os/homebrew'', Errorf_path ''b/y'' (New ''worse''))]" "''a/x''" "New ''bad''" "''b/y''" "New ''worse''"]
  by (auto simp add: errorsOf_def Errorf_path_def)


section \<open>The capability gate\<close>


lemma keepCapable_filter:
  "keepCapable ps capab = filter (\<lambda>p. ValidateRequirements p capab = None) ps"
  by (induction ps) simp_all


text \<open>
  C8. Filtering by capabilities keeps, in each of the three plugin lists, exactly the
  plugins whose requirements validate against the host's capabilities, in their
  original relative order (the result is the \<^verbatim>\<open>filter\<close> of each list by the gate), and
  filtering the filtered lists again under the same capabilities changes nothing.
\<close>


theorem filterByCapabilities_idempotent:
  "filterByCapabilities f s d capab =
     (filter (\<lambda>p. ValidateRequirements p capab = None) f,
      filter (\<lambda>p. ValidateRequirements p capab = None) s,
      filter (\<lambda>p. ValidateRequirements p capab = None) d)
   \<and> (case filterByCapabilities f s d capab of
        (ff, sf, df) \<Rightarrow> filterByCapabilities ff sf df capab = (ff, sf, df))"
  by (simp add: filterByCapabilities_def keepCapable_filter)


lemma gate_examples:
  "ValidateRequirements homebrew linuxHost \<noteq> None"
  "ValidateRequirements (idle n) linuxHost = None"
  "ValidateRequirements (blind n) linuxHost = None"
  by (simp_all add: ValidateRequirements_def homebrew_def idle_def blind_def linuxHost_def noCaps_def)


theorem filterByCapabilities_idempotent_witness:
  "filterByCapabilities [homebrew, idle ''a'', homebrew, blind ''b''] [] [] linuxHost
     = ([idle ''a'', blind ''b''], [], [])
   \<and> filterByCapabilities [idle ''a'', blind ''b''] [] [] linuxHost = ([idle ''a'', blind ''b''], [], [])"
  using filterByCapabilities_idempotent [of "[homebrew, idle ''a'', homebrew, blind ''b'']" "[]" "[]" linuxHost]
  by (auto simp add: gate_examples)


section \<open>Statuses\<close>


lemma errToExtractorStatus_map:
  "errToExtractorStatus exs fi errs =
     map (\<lambda>ex. StatusFromErr ex (lookupBool fi (Name ex)) (errs (Name ex))) exs"
  by (induction exs) simp_all


lemma RunFS_statuses:
  assumes "RunFS config wc = Some (iv, sts, e, wc1)" and "fs wc \<noteq> None"
  shows "sts = errToExtractorStatus (Extractors config) (foundInv wc1) (errors wc1)"
  using assms
  by (auto simp add: RunFS_def split: option.splits if_splits)


text \<open>
  C2. When \<^verbatim>\<open>RunFS\<close> returns from a walk (the walk context has a filesystem), whatever
  the walk's error, its status list has one status for every configured extractor, in
  configuration order, also for an extractor no file was handed to; the status is the
  one \<^verbatim>\<open>StatusFromErr\<close> derives from the plugin's entries in \<^verbatim>\<open>foundInv\<close> and
  \<^verbatim>\<open>errors\<close> at the end of the walk: Succeeded for (found, no error), PartiallyFailed
  for (found, error), NoResults for (not found, no error), Failed for (not found,
  error).
\<close>


theorem RunFS_status_per_extractor:
  assumes "RunFS config wc = Some (iv, sts, e, wc1)" and "fs wc \<noteq> None"
  shows "sts = map (\<lambda>ex. StatusFromErr ex (lookupBool (foundInv wc1) (Name ex)) (errors wc1 (Name ex)))
                   (Extractors config)
         \<and> st_Status (StatusFromErr p True None) = Succeeded
         \<and> st_Status (StatusFromErr p True (Some x)) = PartiallyFailed
         \<and> st_Status (StatusFromErr p False None) = NoResults
         \<and> st_Status (StatusFromErr p False (Some x)) = Failed"
  using RunFS_statuses [OF assms]
  by (simp add: errToExtractorStatus_map StatusFromErr_def)


lemma run_eval:
  "map_option (\<lambda>(iv, sts, e, wc1). (map st_Name sts, map st_Status sts))
     (RunFS (configA [homebrew, blind ''b'', partial ''p'', broken ''x''])
            (wcA (\<lambda>n. Live) [homebrew, blind ''b'', partial ''p'', broken ''x''] 0))
   = Some ([''os/homebrew'', ''b'', ''p'', ''x''], [Succeeded, NoResults, PartiallyFailed, Failed])"
  by code_simp


theorem RunFS_status_per_extractor_witness:
  "fs (wcA (\<lambda>n. Live) [homebrew, blind ''b'', partial ''p'', broken ''x''] 0) \<noteq> None \<and>
   (case RunFS (configA [homebrew, blind ''b'', partial ''p'', broken ''x''])
               (wcA (\<lambda>n. Live) [homebrew, blind ''b'', partial ''p'', broken ''x''] 0) of
      None \<Rightarrow> False
    | Some (iv, sts, e, wc1) \<Rightarrow>
        sts = map (\<lambda>ex. StatusFromErr ex (lookupBool (foundInv wc1) (Name ex)) (errors wc1 (Name ex)))
                  (Extractors (configA [homebrew, blind ''b'', partial ''p'', broken ''x'']))
        \<and> map st_Name sts = [''os/homebrew'', ''b'', ''p'', ''x'']
        \<and> map st_Status sts = [Succeeded, NoResults, PartiallyFailed, Failed])"
proof -
  let ?exs = "[homebrew, blind ''b'', partial ''p'', broken ''x'']"
  obtain iv sts e wc1 where
    run: "RunFS (configA ?exs) (wcA (\<lambda>n. Live) ?exs 0) = Some (iv, sts, e, wc1)" and
    names: "map st_Name sts = [''os/homebrew'', ''b'', ''p'', ''x'']" and
    sts: "map st_Status sts = [Succeeded, NoResults, PartiallyFailed, Failed]"
    using run_eval by (cases "RunFS (configA ?exs) (wcA (\<lambda>n. Live) ?exs 0)") auto
  have f: "fs (wcA (\<lambda>n. Live) ?exs 0) \<noteq> None"
    by (simp add: wcA_def)
  have "sts = map (\<lambda>ex. StatusFromErr ex (lookupBool (foundInv wc1) (Name ex)) (errors wc1 (Name ex)))
                  (Extractors (configA ?exs))"
    by (rule RunFS_status_per_extractor [OF run f, THEN conjunct1])
  with run names sts f show ?thesis by simp
qed


section \<open>The extractor dispatcher\<close>


text \<open>
  C5. When an extractor wants the file, the file opens and stats, and \<^verbatim>\<open>Extract\<close>
  returns a non-empty inventory list together with an error, \<^verbatim>\<open>runExtractor\<close> records
  the error under the plugin's name (chained behind what was there) and still appends
  every returned record to the inventory, with the plugin as its origin, and sets the
  plugin's \<^verbatim>\<open>foundInv\<close> entry.
\<close>


theorem runExtractor_keeps_partial_results:
  assumes "FileRequired ex path fileinfo = Some True"
      and "fs wc = Some fsys" and "Open fsys path = Inr rc" and "f_Stat rc = Inr info"
      and "Extract ex (ctxErr wc)
             \<lparr> Path = path, ScanRoot = scanRoot wc, Info = info, Reader = f_Contents rc \<rparr> = Some res"
      and "results res \<noteq> []" and "err res = Some e"
  shows "\<exists>wc1. runExtractor ex path fileinfo wc = Some wc1
           \<and> errors wc1 = addErrToMap (errors wc) (Name ex) (Errorf_path path e)
           \<and> inventory wc1 = inventory wc @ map (ownInventory wc ex) (results res)
           \<and> length (inventory wc1) = length (inventory wc) + length (results res)
           \<and> foundInv wc1 (Name ex) = Some True
           \<and> (\<forall>i \<in> set (map (ownInventory wc ex) (results res)). inv_Extractor i = Some (Name ex))"
  using assms
  by (simp add: runExtractor_def ownInventory_def Let_def)


theorem runExtractor_keeps_partial_results_witness:
  "FileRequired (partial ''p'') receiptPath receiptInfo = Some True \<and>
   results \<lparr> results = [\<lparr> inv_Name = ''pkg'', inv_Version = ''1'', inv_Locations = [receiptPath],
                           inv_Extractor = None \<rparr>], err = Some (New ''truncated'') \<rparr> \<noteq> [] \<and>
   (\<exists>wc1. runExtractor (partial ''p'') receiptPath receiptInfo (wcA (\<lambda>n. Live) [partial ''p''] 0) = Some wc1
      \<and> errors wc1 ''p'' = Some (Errorf_path receiptPath (New ''truncated''))
      \<and> inventory wc1 = [\<lparr> inv_Name = ''pkg'', inv_Version = ''1'', inv_Locations = [receiptPath],
                             inv_Extractor = Some ''p'' \<rparr>]
      \<and> foundInv wc1 ''p'' = Some True)"
proof -
  let ?wc = "wcA (\<lambda>n. Live) [partial ''p''] 0"
  let ?rc = "\<lparr> f_Stat = Inr receiptInfo, f_Contents = ''{}'' \<rparr>"
  let ?res = "\<lparr> results = [\<lparr> inv_Name = ''pkg'', inv_Version = ''1'', inv_Locations = [receiptPath],
                              inv_Extractor = None \<rparr>], err = Some (New ''truncated'') \<rparr>"
  have h1: "FileRequired (partial ''p'') receiptPath receiptInfo = Some True"
    by (simp add: partial_def)
  have h2: "fs ?wc = Some fixtureA" by (simp add: wcA_def)
  have h3: "Open fixtureA receiptPath = Inr ?rc" by (simp add: fixtureA_def)
  have h4: "f_Stat ?rc = Inr receiptInfo" by simp
  have h5: "Extract (partial ''p'') (ctxErr ?wc)
              \<lparr> Path = receiptPath, ScanRoot = scanRoot ?wc, Info = receiptInfo, Reader = f_Contents ?rc \<rparr>
            = Some ?res"
    by (simp add: partial_def)
  have h6: "results ?res \<noteq> []" by simp
  have h7: "err ?res = Some (New ''truncated'')" by simp
  from runExtractor_keeps_partial_results [OF h1 h2 h3 h4 h5 h6 h7]
  obtain wc1 where
    r: "runExtractor (partial ''p'') receiptPath receiptInfo ?wc = Some wc1" and
    e: "errors wc1 = addErrToMap (errors ?wc) (Name (partial ''p'')) (Errorf_path receiptPath (New ''truncated''))" and
    i: "inventory wc1 = inventory ?wc @ map (ownInventory ?wc (partial ''p'')) (results ?res)" and
    f: "foundInv wc1 (Name (partial ''p'')) = Some True"
    by blast
  have e': "errors wc1 ''p'' = Some (Errorf_path receiptPath (New ''truncated''))"
    unfolding e by (simp add: addErrToMap_def wcA_def partial_def)
  have i': "inventory wc1 = [\<lparr> inv_Name = ''pkg'', inv_Version = ''1'', inv_Locations = [receiptPath],
                               inv_Extractor = Some ''p'' \<rparr>]"
    unfolding i by (simp add: ownInventory_def wcA_def partial_def)
  have f': "foundInv wc1 ''p'' = Some True"
    using f by (simp add: partial_def)
  from h1 h6 r e' i' f' show ?thesis by blast
qed


section \<open>The per-entry handler\<close>


lemma runExtractor_frame:
  assumes "runExtractor ex path fileinfo wc = Some wc1"
  shows "inodesVisited wc1 = inodesVisited wc \<and> maxInodes wc1 = maxInodes wc
         \<and> ctx wc1 = ctx wc \<and> fs wc1 = fs wc \<and> extractors wc1 = extractors wc
         \<and> logs wc1 = logs wc"
  using assms
  by (auto simp add: runExtractor_def Let_def split: option.splits bool.splits sum.splits if_splits)


lemma runExtractors_frame:
  "runExtractors exs path fileinfo wc = Some wc1 \<Longrightarrow>
     inodesVisited wc1 = inodesVisited wc \<and> maxInodes wc1 = maxInodes wc
     \<and> ctx wc1 = ctx wc \<and> fs wc1 = fs wc \<and> extractors wc1 = extractors wc
     \<and> logs wc1 = logs wc"
proof (induction exs arbitrary: wc)
  case Nil
  then show ?case by simp
next
  case (Cons ex exs)
  from Cons.prems obtain wc0 where
    a: "runExtractor ex path fileinfo wc = Some wc0" and
    b: "runExtractors exs path fileinfo wc0 = Some wc1"
    by (auto split: option.splits)
  from runExtractor_frame [OF a] Cons.IH [OF b] show ?case by simp
qed


lemma Err_not_New: "Err s \<noteq> Some (New m)"
  by (cases s) simp_all


lemma handleFile_over:
  "overBudget wc \<Longrightarrow>
     handleFile path d fserr wc
       = Some (Some (ErrMaxInodes (maxInodes wc)), wc\<lparr> inodesVisited := inodesVisited wc + 1 \<rparr>)"
  by (simp add: handleFile_def overBudget_def Let_def)


lemma handleFile_result:
  assumes "handleFile path d fserr wc = Some (res, wc1)"
  shows "inodesVisited wc1 = inodesVisited wc + 1 \<and> maxInodes wc1 = maxInodes wc
         \<and> (\<forall>m. res = Some (New m) \<longrightarrow> overBudget wc \<and> m = Error (ErrMaxInodes (maxInodes wc)))"
proof (cases "overBudget wc")
  case True
  from assms show ?thesis
    unfolding handleFile_over [OF True] using True by (auto simp add: ErrMaxInodes_def)
next
  case False
  then have nb: "\<not> (0 < maxInodes wc \<and> maxInodes wc < inodesVisited wc + 1)"
    by (simp add: overBudget_def)
  from assms nb show ?thesis
    by (auto simp add: handleFile_def Let_def ctxErr_def Err_not_New
             split: option.splits if_splits sum.splits dest!: runExtractors_frame)
qed


section \<open>The inode budget\<close>


lemma handleFile_budget_iff:
  "(\<exists>wc1. handleFile path d fserr wc = Some (Some (ErrMaxInodes (maxInodes wc)), wc1)) \<longleftrightarrow> overBudget wc"
proof
  assume "\<exists>wc1. handleFile path d fserr wc = Some (Some (ErrMaxInodes (maxInodes wc)), wc1)"
  then obtain wc1 where "handleFile path d fserr wc = Some (Some (ErrMaxInodes (maxInodes wc)), wc1)"
    by blast
  from handleFile_result [OF this] show "overBudget wc"
    by (simp add: ErrMaxInodes_def)
next
  assume "overBudget wc"
  from handleFile_over [OF this] show "\<exists>wc1. handleFile path d fserr wc = Some (Some (ErrMaxInodes (maxInodes wc)), wc1)"
    by blast
qed


lemma walk_Cons:
  "walkIndividualFiles fsys (p # paths) handleFile wc =
     (case visit fsys p wc of
        None \<Rightarrow> None
      | Some (Some e, w1) \<Rightarrow> Some (Some e, w1)
      | Some (None, w1) \<Rightarrow> walkIndividualFiles fsys paths handleFile w1)"
  by (simp add: visit_def)


lemma visit_result:
  assumes "visit fsys p wc = Some (res, wc1)"
  shows "inodesVisited wc1 = inodesVisited wc + 1 \<and> maxInodes wc1 = maxInodes wc
         \<and> (\<forall>m. res = Some (New m) \<longrightarrow> overBudget wc \<and> m = Error (ErrMaxInodes (maxInodes wc)))"
  using assms handleFile_result
  by (auto simp add: visit_def split: sum.splits)


lemma visit_over:
  "overBudget wc \<Longrightarrow>
     visit fsys p wc = Some (Some (ErrMaxInodes (maxInodes wc)), wc\<lparr> inodesVisited := inodesVisited wc + 1 \<rparr>)"
  by (simp add: visit_def handleFile_over split: sum.splits)


lemma walk_append:
  "walkIndividualFiles fsys (xs @ ys) handleFile wc =
     (case walkIndividualFiles fsys xs handleFile wc of
        None \<Rightarrow> None
      | Some (Some e, w1) \<Rightarrow> Some (Some e, w1)
      | Some (None, w1) \<Rightarrow> walkIndividualFiles fsys ys handleFile w1)"
proof (induction xs arbitrary: wc)
  case Nil
  show ?case by simp
next
  case (Cons x xs)
  show ?case
    unfolding append_Cons walk_Cons
    by (simp add: Cons.IH split: option.splits prod.splits)
qed


lemma walk_nil_result:
  "walkIndividualFiles fsys paths handleFile wc = Some (None, wc1) \<Longrightarrow>
     inodesVisited wc1 = inodesVisited wc + int (length paths) \<and> maxInodes wc1 = maxInodes wc"
proof (induction paths arbitrary: wc)
  case Nil
  then show ?case by simp
next
  case (Cons p paths)
  from Cons.prems obtain w1 where
    v: "visit fsys p wc = Some (None, w1)" and
    r: "walkIndividualFiles fsys paths handleFile w1 = Some (None, wc1)"
    unfolding walk_Cons by (auto split: option.splits prod.splits)
  from visit_result [OF v] Cons.IH [OF r] show ?case by simp
qed


lemma walk_unbudgeted:
  "\<not> 0 < maxInodes wc \<Longrightarrow>
     walkIndividualFiles fsys paths handleFile wc \<noteq> Some (Some (New m), wc1)"
proof (induction paths arbitrary: wc)
  case Nil
  show ?case by simp
next
  case (Cons p paths)
  show ?case
  proof
    assume "walkIndividualFiles fsys (p # paths) handleFile wc = Some (Some (New m), wc1)"
    then consider
      (stop) "visit fsys p wc = Some (Some (New m), wc1)" |
      (go) w1 where "visit fsys p wc = Some (None, w1)"
        "walkIndividualFiles fsys paths handleFile w1 = Some (Some (New m), wc1)"
      unfolding walk_Cons by (auto split: option.splits prod.splits)
    then show False
    proof cases
      case stop
      from visit_result [OF stop] Cons.prems show False
        by (simp add: overBudget_def)
    next
      case go
      from visit_result [OF go(1)] Cons.prems have "\<not> 0 < maxInodes w1" by simp
      from Cons.IH [OF this] go(2) show False by simp
    qed
  qed
qed


lemma walk_budget_error:
  "walkIndividualFiles fsys paths handleFile wc = Some (Some (New m), wc1) \<Longrightarrow>
   inodesVisited wc \<le> maxInodes wc \<Longrightarrow>
     0 < maxInodes wc \<and> m = Error (ErrMaxInodes (maxInodes wc))
     \<and> inodesVisited wc1 = maxInodes wc + 1
     \<and> inodesVisited wc1 \<le> inodesVisited wc + int (length paths)"
proof (induction paths arbitrary: wc)
  case Nil
  then show ?case by simp
next
  case (Cons p paths)
  have pos: "0 < maxInodes wc"
    using walk_unbudgeted [of wc fsys "p # paths" m wc1] Cons.prems(1) by blast
  from Cons.prems(1) consider
    (stop) "visit fsys p wc = Some (Some (New m), wc1)" |
    (go) w1 where "visit fsys p wc = Some (None, w1)"
      "walkIndividualFiles fsys paths handleFile w1 = Some (Some (New m), wc1)"
    unfolding walk_Cons by (auto split: option.splits prod.splits)
  then show ?case
  proof cases
    case stop
    from visit_result [OF stop] Cons.prems(2) show ?thesis
      by (auto simp add: overBudget_def)
  next
    case go
    have nb: "\<not> overBudget wc"
      using go(1) visit_over [of wc fsys p] by auto
    from visit_result [OF go(1)] have
      i: "inodesVisited w1 = inodesVisited wc + 1" and mx: "maxInodes w1 = maxInodes wc"
      by simp_all
    from pos nb i mx have le: "inodesVisited w1 \<le> maxInodes w1"
      by (simp add: overBudget_def)
    from Cons.IH [OF go(2) le] i mx show ?thesis by simp
  qed
qed


lemma walk_over_budget:
  assumes pre: "walkIndividualFiles fsys (take (nat (maxInodes wc)) paths) handleFile wc = Some (None, wcN)"
      and pos: "0 < maxInodes wc" and start: "inodesVisited wc = 0"
      and more: "maxInodes wc < int (length paths)"
  shows "walkIndividualFiles fsys paths handleFile wc
           = Some (Some (ErrMaxInodes (maxInodes wc)), wcN\<lparr> inodesVisited := maxInodes wc + 1 \<rparr>)"
proof -
  let ?n = "nat (maxInodes wc)"
  from more pos have len: "length (take ?n paths) = ?n" by simp
  from walk_nil_result [OF pre] len start pos have
    iN: "inodesVisited wcN = maxInodes wc" and mN: "maxInodes wcN = maxInodes wc"
    by simp_all
  from more pos obtain q qs where rest: "drop ?n paths = q # qs"
    by (cases "drop ?n paths") auto
  have ob: "overBudget wcN"
    using iN mN pos by (simp add: overBudget_def)
  have "walkIndividualFiles fsys (take ?n paths @ drop ?n paths) handleFile wc
          = walkIndividualFiles fsys (q # qs) handleFile wcN"
    unfolding walk_append pre rest by simp
  also have "\<dots> = Some (Some (ErrMaxInodes (maxInodes wcN)), wcN\<lparr> inodesVisited := inodesVisited wcN + 1 \<rparr>)"
    unfolding walk_Cons visit_over [OF ob] by simp
  finally show ?thesis by (simp add: iN mN)
qed


text \<open>
  C1. The handler first increments \<^verbatim>\<open>inodesVisited\<close> and then returns the budget error
  exactly when the budget is positive and the incremented count exceeds it; whatever it
  returns, the count has gone up by one. For the walk over listed paths
  (\<^verbatim>\<open>walkIndividualFiles\<close> with the handler as callback), with a budget \<^verbatim>\<open>N > 0\<close> and
  the count starting at 0: when more than \<^verbatim>\<open>N\<close> paths are listed and nothing else ends
  the walk within the first \<^verbatim>\<open>N\<close>, the walk ends with the budget error and the count
  \<^verbatim>\<open>N + 1\<close>; and whenever the walk ends with the budget error, the count is \<^verbatim>\<open>N + 1\<close>
  and more than \<^verbatim>\<open>N\<close> paths were listed, so a walk over at most \<^verbatim>\<open>N\<close> entries never
  raises it. With a budget of 0 the walk never returns a budget error.
\<close>


theorem inode_budget:
  "((\<exists>wc1. handleFile path d fserr wc = Some (Some (ErrMaxInodes (maxInodes wc)), wc1))
      \<longleftrightarrow> (0 < maxInodes wc \<and> maxInodes wc < inodesVisited wc + 1))
   \<and> (\<forall>res wc1. handleFile path d fserr wc = Some (res, wc1) \<longrightarrow> inodesVisited wc1 = inodesVisited wc + 1)
   \<and> (0 < maxInodes wc \<and> inodesVisited wc = 0 \<longrightarrow>
        (\<forall>wcN. walkIndividualFiles fsys (take (nat (maxInodes wc)) paths) handleFile wc = Some (None, wcN)
                \<and> maxInodes wc < int (length paths) \<longrightarrow>
              (\<exists>wc1. walkIndividualFiles fsys paths handleFile wc = Some (Some (ErrMaxInodes (maxInodes wc)), wc1)
                     \<and> inodesVisited wc1 = maxInodes wc + 1))
        \<and> (\<forall>wc1. walkIndividualFiles fsys paths handleFile wc = Some (Some (ErrMaxInodes (maxInodes wc)), wc1) \<longrightarrow>
              inodesVisited wc1 = maxInodes wc + 1 \<and> maxInodes wc < int (length paths)))
   \<and> (maxInodes wc = 0 \<longrightarrow>
        (\<forall>n wc1. walkIndividualFiles fsys paths handleFile wc \<noteq> Some (Some (ErrMaxInodes n), wc1)))"
proof (intro conjI)
  show "(\<exists>wc1. handleFile path d fserr wc = Some (Some (ErrMaxInodes (maxInodes wc)), wc1))
      \<longleftrightarrow> (0 < maxInodes wc \<and> maxInodes wc < inodesVisited wc + 1)"
    using handleFile_budget_iff [of path d fserr wc] by (simp add: overBudget_def)
next
  show "\<forall>res wc1. handleFile path d fserr wc = Some (res, wc1) \<longrightarrow> inodesVisited wc1 = inodesVisited wc + 1"
    using handleFile_result by blast
next
  show "0 < maxInodes wc \<and> inodesVisited wc = 0 \<longrightarrow>
        (\<forall>wcN. walkIndividualFiles fsys (take (nat (maxInodes wc)) paths) handleFile wc = Some (None, wcN)
                \<and> maxInodes wc < int (length paths) \<longrightarrow>
              (\<exists>wc1. walkIndividualFiles fsys paths handleFile wc = Some (Some (ErrMaxInodes (maxInodes wc)), wc1)
                     \<and> inodesVisited wc1 = maxInodes wc + 1))
        \<and> (\<forall>wc1. walkIndividualFiles fsys paths handleFile wc = Some (Some (ErrMaxInodes (maxInodes wc)), wc1) \<longrightarrow>
              inodesVisited wc1 = maxInodes wc + 1 \<and> maxInodes wc < int (length paths))"
  proof (intro impI conjI allI)
    fix wcN
    assume a: "0 < maxInodes wc \<and> inodesVisited wc = 0"
       and b: "walkIndividualFiles fsys (take (nat (maxInodes wc)) paths) handleFile wc = Some (None, wcN)
                \<and> maxInodes wc < int (length paths)"
    from walk_over_budget [of fsys wc paths wcN] a b
    show "\<exists>wc1. walkIndividualFiles fsys paths handleFile wc = Some (Some (ErrMaxInodes (maxInodes wc)), wc1)
                     \<and> inodesVisited wc1 = maxInodes wc + 1"
      by simp
  next
    fix wc1
    assume a: "0 < maxInodes wc \<and> inodesVisited wc = 0"
       and b: "walkIndividualFiles fsys paths handleFile wc = Some (Some (ErrMaxInodes (maxInodes wc)), wc1)"
    from a have le: "inodesVisited wc \<le> maxInodes wc" by simp
    from walk_budget_error [OF b [unfolded ErrMaxInodes_def] le] a
    show "inodesVisited wc1 = maxInodes wc + 1" by simp
  next
    fix wc1
    assume a: "0 < maxInodes wc \<and> inodesVisited wc = 0"
       and b: "walkIndividualFiles fsys paths handleFile wc = Some (Some (ErrMaxInodes (maxInodes wc)), wc1)"
    from a have le: "inodesVisited wc \<le> maxInodes wc" by simp
    from walk_budget_error [OF b [unfolded ErrMaxInodes_def] le] a
    show "maxInodes wc < int (length paths)" by simp
  qed
next
  show "maxInodes wc = 0 \<longrightarrow>
        (\<forall>n wc1. walkIndividualFiles fsys paths handleFile wc \<noteq> Some (Some (ErrMaxInodes n), wc1))"
  proof (intro impI allI notI)
    fix n wc1
    assume z: "maxInodes wc = 0"
       and b: "walkIndividualFiles fsys paths handleFile wc = Some (Some (ErrMaxInodes n), wc1)"
    from z have nb: "\<not> 0 < maxInodes wc" by simp
    from walk_unbudgeted [OF nb] b [unfolded ErrMaxInodes_def] show False
      by blast
  qed
qed


lemma budget_walk_prefix:
  "map_option fst (walkIndividualFiles fixtureA (take 2 tenPaths) handleFile (wcA (\<lambda>n. Live) [homebrew] 2))
     = Some None"
  by code_simp


theorem inode_budget_witness:
  "0 < maxInodes (wcA (\<lambda>n. Live) [homebrew] 2) \<and> inodesVisited (wcA (\<lambda>n. Live) [homebrew] 2) = 0
   \<and> maxInodes (wcA (\<lambda>n. Live) [homebrew] 2) < int (length tenPaths)
   \<and> (\<exists>wcN. walkIndividualFiles fixtureA (take (nat (maxInodes (wcA (\<lambda>n. Live) [homebrew] 2))) tenPaths)
               handleFile (wcA (\<lambda>n. Live) [homebrew] 2) = Some (None, wcN))
   \<and> (\<exists>wc1. walkIndividualFiles fixtureA tenPaths handleFile (wcA (\<lambda>n. Live) [homebrew] 2)
               = Some (Some (ErrMaxInodes 2), wc1)
             \<and> inodesVisited wc1 = 3)"
proof -
  let ?wc = "wcA (\<lambda>n. Live) [homebrew] 2"
  have m: "maxInodes ?wc = 2" and i: "inodesVisited ?wc = 0"
    by (simp_all add: wcA_def)
  have l: "maxInodes ?wc < int (length tenPaths)"
    by (simp add: m tenPaths_def)
  obtain wcN where
    pre: "walkIndividualFiles fixtureA (take (nat (maxInodes ?wc)) tenPaths) handleFile ?wc = Some (None, wcN)"
    using budget_walk_prefix unfolding m
    by (cases "walkIndividualFiles fixtureA (take 2 tenPaths) handleFile ?wc") auto
  have "\<exists>wc1. walkIndividualFiles fixtureA tenPaths handleFile ?wc = Some (Some (ErrMaxInodes (maxInodes ?wc)), wc1)
             \<and> inodesVisited wc1 = maxInodes ?wc + 1"
  proof -
    have pos: "0 < maxInodes ?wc \<and> inodesVisited ?wc = 0"
      using m i by simp
    note th = inode_budget [of "''.''" None None ?wc fixtureA tenPaths,
                            THEN conjunct2, THEN conjunct2, THEN conjunct1]
    from th pos pre l show ?thesis by blast
  qed
  then have "\<exists>wc1. walkIndividualFiles fixtureA tenPaths handleFile ?wc = Some (Some (ErrMaxInodes 2), wc1)
             \<and> inodesVisited wc1 = 3"
    by (simp add: m)
  moreover have "0 < maxInodes ?wc" by (simp add: m)
  ultimately show ?thesis using i l pre by blast
qed


section \<open>I/O errors of entries\<close>


lemma handleFile_fserr:
  "handleFile path d (Some fe) wc =
     Some (if overBudget wc
           then (Some (ErrMaxInodes (maxInodes wc)), wc\<lparr> inodesVisited := inodesVisited wc + 1 \<rparr>)
           else (case ctxErr wc of
                   Some e \<Rightarrow> (Some e, wc\<lparr> inodesVisited := inodesVisited wc + 1,
                                            stats := stats wc @ [AfterInodeVisited path] \<rparr>)
                 | None \<Rightarrow> (None, wc\<lparr> inodesVisited := inodesVisited wc + 1,
                                      stats := stats wc @ [AfterInodeVisited path],
                                      logs := logs wc @ [(if IsPermission fe then Debug else ErrorLevel,
                                                          ''fserr: '' @ Error fe)] \<rparr>)))"
  by (simp add: handleFile_def overBudget_def ctxErr_def Let_def split: option.splits)


text \<open>
  C7. For an entry the filesystem reports an I/O error for, the handler, once the entry is
  counted and the budget and cancellation checks that come first for every entry have
  passed, logs the error (at debug level when it is a permission error, at error level
  otherwise) and returns nil, leaving inventory, errors and found flags as they were.
  The error itself is never returned: what the handler returns for such an entry is the
  budget error, the context's error or nil, whatever the I/O error is. So a walk over
  listed paths that meets such an entry goes on with the remaining paths.
\<close>


theorem fserr_is_swallowed:
  "handleFile path d (Some fe) wc =
     Some (if overBudget wc
           then (Some (ErrMaxInodes (maxInodes wc)), wc\<lparr> inodesVisited := inodesVisited wc + 1 \<rparr>)
           else (case ctxErr wc of
                   Some e \<Rightarrow> (Some e, wc\<lparr> inodesVisited := inodesVisited wc + 1,
                                            stats := stats wc @ [AfterInodeVisited path] \<rparr>)
                 | None \<Rightarrow> (None, wc\<lparr> inodesVisited := inodesVisited wc + 1,
                                      stats := stats wc @ [AfterInodeVisited path],
                                      logs := logs wc @ [(if IsPermission fe then Debug else ErrorLevel,
                                                          ''fserr: '' @ Error fe)] \<rparr>)))
   \<and> (Stat fsys p = Inl fe \<and> \<not> overBudget wc \<and> ctxErr wc = None \<longrightarrow>
        walkIndividualFiles fsys (p # paths) handleFile wc =
          walkIndividualFiles fsys paths handleFile
            (wc\<lparr> inodesVisited := inodesVisited wc + 1,
                 stats := stats wc @ [AfterInodeVisited p],
                 logs := logs wc @ [(if IsPermission fe then Debug else ErrorLevel,
                                     ''fserr: '' @ Error fe)] \<rparr>))"
  by (simp add: handleFile_fserr)


theorem fserr_is_swallowed_witness:
  "Stat fixtureB ''secret'' = Inl (PathError ''stat'' ''secret'' ErrPermission)
   \<and> \<not> overBudget (wcB (\<lambda>n. Live) [homebrew] 0)
   \<and> ctxErr (wcB (\<lambda>n. Live) [homebrew] 0) = None
   \<and> map_option (\<lambda>(e, w). (e, inventory w, logs w))
        (walkIndividualFiles fixtureB [''secret'', receiptPath] handleFile (wcB (\<lambda>n. Live) [homebrew] 0))
      = Some (None,
              [\<lparr> inv_Name = ''tree'', inv_Version = ''1.1'',
                  inv_Locations = [''cellar/tree/1.1/install_receipt.json''],
                  inv_Extractor = Some ''os/homebrew'' \<rparr>],
              [(Debug, ''fserr: stat secret: permission denied'')])"
proof -
  let ?wc = "wcB (\<lambda>n. Live) [homebrew] 0"
  let ?fe = "PathError ''stat'' ''secret'' ErrPermission"
  have h1: "Stat fixtureB ''secret'' = Inl ?fe"
    by (simp add: fixtureB_def)
  have h2: "\<not> overBudget ?wc"
    by (simp add: overBudget_def wcB_def wcA_def)
  have h3: "ctxErr ?wc = None"
    by (simp add: ctxErr_def wcB_def wcA_def)
  have step: "walkIndividualFiles fixtureB [''secret'', receiptPath] handleFile ?wc =
          walkIndividualFiles fixtureB [receiptPath] handleFile
            (?wc\<lparr> inodesVisited := inodesVisited ?wc + 1,
                 stats := stats ?wc @ [AfterInodeVisited ''secret''],
                 logs := logs ?wc @ [(if IsPermission ?fe then Debug else ErrorLevel,
                                     ''fserr: '' @ Error ?fe)] \<rparr>)"
    using fserr_is_swallowed [of "''secret''" None ?fe ?wc fixtureB "''secret''" "[receiptPath]"] h1 h2 h3
    by blast
  have rest: "map_option (\<lambda>(e, w). (e, inventory w, logs w))
        (walkIndividualFiles fixtureB [receiptPath] handleFile
            (?wc\<lparr> inodesVisited := inodesVisited ?wc + 1,
                 stats := stats ?wc @ [AfterInodeVisited ''secret''],
                 logs := logs ?wc @ [(if IsPermission ?fe then Debug else ErrorLevel,
                                     ''fserr: '' @ Error ?fe)] \<rparr>))
      = Some (None,
              [\<lparr> inv_Name = ''tree'', inv_Version = ''1.1'',
                  inv_Locations = [''cellar/tree/1.1/install_receipt.json''],
                  inv_Extractor = Some ''os/homebrew'' \<rparr>],
              [(Debug, ''fserr: stat secret: permission denied'')])"
    by code_simp
  from h1 h2 h3 rest show ?thesis
    unfolding step by blast
qed


section \<open>Cancellation\<close>


lemma handleFile_cancelled:
  "ctxErr wc = Some e \<Longrightarrow>
   handleFile path d fserr wc =
     Some (if overBudget wc
           then (Some (ErrMaxInodes (maxInodes wc)), wc\<lparr> inodesVisited := inodesVisited wc + 1 \<rparr>)
           else (Some e, wc\<lparr> inodesVisited := inodesVisited wc + 1,
                              stats := stats wc @ [AfterInodeVisited path] \<rparr>))"
  by (simp add: handleFile_def overBudget_def ctxErr_def Let_def)


text \<open>
  C3, as amended. The scan context is checked once per entry, inside the handler, after
  the entry is counted and the budget is checked and before the entry is looked at: when
  the context is cancelled at that point, the handler returns the context's error (the
  budget error when the budget is exceeded), the walk over listed paths ends there, and
  no extractor call is started for this entry or a later one. The context is not
  checked again between the extractors of one file.
\<close>


theorem cancellation_checked_once_per_entry:
  assumes "ctxErr wc = Some e"
  shows "handleFile path d fserr wc =
           Some (if overBudget wc
                 then (Some (ErrMaxInodes (maxInodes wc)), wc\<lparr> inodesVisited := inodesVisited wc + 1 \<rparr>)
                 else (Some e, wc\<lparr> inodesVisited := inodesVisited wc + 1,
                                    stats := stats wc @ [AfterInodeVisited path] \<rparr>))
         \<and> (\<exists>x wc1. walkIndividualFiles fsys (p # paths) handleFile wc = Some (Some x, wc1)
                \<and> (x = e \<or> x = ErrMaxInodes (maxInodes wc))
                \<and> extractCalls wc1 = extractCalls wc \<and> inventory wc1 = inventory wc
                \<and> errors wc1 = errors wc \<and> foundInv wc1 = foundInv wc)"
  using assms
  by (auto simp add: handleFile_cancelled split: sum.splits)


theorem cancellation_checked_once_per_entry_witness:
  "ctxErr (wcA (\<lambda>n. CtxCanceled) [idle ''first'', idle ''second''] 0) = Some Canceled
   \<and> map_option (\<lambda>(e, w). (e, extractCalls w, inventory w))
        (handleFile receiptPath (Some (FileInfoToDirEntry receiptInfo)) None
           (wcA (\<lambda>n. CtxCanceled) [idle ''first'', idle ''second''] 0))
      = Some (Some Canceled, 0, [])
   \<and> (\<exists>x wc1. walkIndividualFiles fixtureA [receiptPath, ''cellar''] handleFile
                  (wcA (\<lambda>n. CtxCanceled) [idle ''first'', idle ''second''] 0) = Some (Some x, wc1)
               \<and> extractCalls wc1 = 0)"
proof -
  let ?wc = "wcA (\<lambda>n. CtxCanceled) [idle ''first'', idle ''second''] 0"
  have h: "ctxErr ?wc = Some Canceled"
    by (simp add: ctxErr_def wcA_def)
  have nb: "\<not> overBudget ?wc"
    by (simp add: overBudget_def wcA_def)
  note th = cancellation_checked_once_per_entry [OF h, of receiptPath
              "Some (FileInfoToDirEntry receiptInfo)" None fixtureA receiptPath "[''cellar'']"]
  from th nb have a: "map_option (\<lambda>(e, w). (e, extractCalls w, inventory w))
        (handleFile receiptPath (Some (FileInfoToDirEntry receiptInfo)) None ?wc)
      = Some (Some Canceled, 0, [])"
    by (simp add: wcA_def)
  from th have b: "\<exists>x wc1. walkIndividualFiles fixtureA [receiptPath, ''cellar''] handleFile ?wc = Some (Some x, wc1)
               \<and> extractCalls wc1 = 0"
    by (auto simp add: wcA_def)
  from h a b show ?thesis by blast
qed


text \<open>
  The claim as stated fails: with two extractors wanting one file and a context that is
  cancelled while the first \<^verbatim>\<open>Extract\<close> call runs, the second extractor is still called
  (two \<^verbatim>\<open>Extract\<close> calls are counted and the metrics hook hears of both runs), and
  the handler returns nil.
\<close>


theorem cancellation_between_extractors_counterexample:
  "ctxErr (wcA cancelledDuringFirstCall [idle ''first'', idle ''second''] 0) = None \<and>
   ctx (wcA cancelledDuringFirstCall [idle ''first'', idle ''second''] 0) 1 = CtxCanceled \<and>
   map_option (\<lambda>(e, w). (e, extractCalls w, stats w, ctxErr w))
     (handleFile receiptPath (Some (FileInfoToDirEntry receiptInfo)) None
        (wcA cancelledDuringFirstCall [idle ''first'', idle ''second''] 0))
   = Some (None, 2,
           [AfterInodeVisited receiptPath, AfterExtractorRun ''first'' None,
            AfterExtractorRun ''second'' None],
           Some Canceled)"
  by code_simp


section \<open>The homebrew scenario\<close>


text \<open>
  C9. The homebrew extractor wants \<^verbatim>\<open>cellar/tree/1.1/install_receipt.json\<close> and extracts
  from it one record, name \<^verbatim>\<open>tree\<close>, version \<^verbatim>\<open>1.1\<close>, located at that path. With it as
  the only extractor, a run over the fixture tree that holds this one regular file
  returns exactly this record, with the plugin as its origin, the plugin's status
  Succeeded, and no error.
\<close>


theorem homebrew_single_cellar_entry:
  "homebrew_FileRequired ''cellar/tree/1.1/install_receipt.json'' fileinfo = Some True
   \<and> homebrew_Extract c \<lparr> Path = ''cellar/tree/1.1/install_receipt.json'', ScanRoot = root,
                           Info = info, Reader = rd \<rparr>
       = Some \<lparr> results = [\<lparr> inv_Name = ''tree'', inv_Version = ''1.1'',
                              inv_Locations = [''cellar/tree/1.1/install_receipt.json''],
                              inv_Extractor = None \<rparr>],
                err = None \<rparr>
   \<and> (case InitWalkContext (Inr ''/'') (\<lambda>n. Live) (configA [homebrew]) [''/tmp/fixtures/A''] of
        Inl e \<Rightarrow> False
      | Inr wc \<Rightarrow>
          map_option (\<lambda>(iv, sts, e, wc1). (iv, sts, e))
            (RunFS (configA [homebrew]) (UpdateScanRoot ''/tmp/fixtures/A'' fixtureA wc))
          = Some ([\<lparr> inv_Name = ''tree'', inv_Version = ''1.1'',
                      inv_Locations = [''cellar/tree/1.1/install_receipt.json''],
                      inv_Extractor = Some ''os/homebrew'' \<rparr>],
                  [\<lparr> st_Name = ''os/homebrew'', st_Version = 0, st_Status = Succeeded,
                      st_FailureReason = [] \<rparr>],
                  None))"
  by code_simp


section \<open>Resolving paths against the scan roots\<close>


lemma Split_ne: "Split s c \<noteq> []"
  by (induction s) (auto split: list.splits)


lemma Split_unfold:
  "Split s c = takeWhile (\<lambda>x. x \<noteq> c) s #
               (case dropWhile (\<lambda>x. x \<noteq> c) s of [] \<Rightarrow> [] | x # rest \<Rightarrow> Split rest c)"
proof (induction s)
  case Nil
  show ?case by simp
next
  case (Cons a s)
  show ?case
  proof (cases "a = c")
    case True
    then show ?thesis by simp
  next
    case False
    then show ?thesis
      using Cons.IH by (simp split: list.splits)
  qed
qed


lemma Split_no_sep: "e \<in> set (Split s c) \<Longrightarrow> c \<notin> set e"
proof (induction s arbitrary: e)
  case Nil
  then show ?case by simp
next
  case (Cons a s)
  show ?case
  proof (cases "a = c")
    case True
    with Cons show ?thesis by auto
  next
    case False
    obtain p ps where sp: "Split s c = p # ps"
      using Split_ne [of s c] by (cases "Split s c") auto
    from Cons.prems False sp have "e = a # p \<or> e \<in> set ps" by simp
    then show ?thesis
    proof
      assume "e = a # p"
      moreover have "c \<notin> set p" using Cons.IH [of p] sp by simp
      ultimately show ?thesis using False by auto
    next
      assume "e \<in> set ps"
      then show ?thesis using Cons.IH [of e] sp by simp
    qed
  qed
qed


lemma Split_single: "c \<notin> set e \<Longrightarrow> Split e c = [e]"
  by (induction e) (auto split: list.splits)


lemma Split_append_sep: "c \<notin> set e \<Longrightarrow> Split (e @ c # s) c = e # Split s c"
  by (induction e) (auto split: list.splits)


lemma Split_Join:
  "out \<noteq> [] \<Longrightarrow> \<forall>e \<in> set out. c \<notin> set e \<Longrightarrow> Split (Join out [c]) c = out"
proof (induction out)
  case Nil
  then show ?case by simp
next
  case (Cons e out)
  show ?case
  proof (cases out)
    case Nil
    with Cons.prems show ?thesis by (simp add: Split_single)
  next
    case (Cons e2 out2)
    with Cons.prems Cons.IH show ?thesis
      by (simp add: Split_append_sep)
  qed
qed


lemma relLoop_elem:
  "relLoop b t = (b1, t1, el) \<Longrightarrow> el = [] \<or> el \<in> set (Split b Separator)"
proof (induction b t rule: relLoop.induct)
  case (1 b t)
  show ?case
  proof (cases "b = [] \<or> t = []")
    case True
    with "1.prems" show ?thesis by (simp add: relLoop.simps)
  next
    case False
    show ?thesis
    proof (cases "takeWhile (\<lambda>c. c \<noteq> Separator) b \<noteq> takeWhile (\<lambda>c. c \<noteq> Separator) t")
      case True
      with False "1.prems" have "el = takeWhile (\<lambda>c. c \<noteq> Separator) b"
        by (subst (asm) relLoop.simps) auto
      then show ?thesis
        by (subst Split_unfold) simp
    next
      case same: False
      let ?b = "drop 1 (dropWhile (\<lambda>c. c \<noteq> Separator) b)"
      let ?t = "drop 1 (dropWhile (\<lambda>c. c \<noteq> Separator) t)"
      from False same "1.prems" have r: "relLoop ?b ?t = (b1, t1, el)"
        by (subst (asm) relLoop.simps) simp
      from "1.IH" [OF False _ r] same have ih: "el = [] \<or> el \<in> set (Split ?b Separator)"
        by simp
      show ?thesis
      proof (cases "dropWhile (\<lambda>c. c \<noteq> Separator) b")
        case Nil
        with r have "el = []" by (simp add: relLoop.simps)
        then show ?thesis by simp
      next
        case (Cons x rest)
        with ih have "el = [] \<or> el \<in> set (Split rest Separator)" by simp
        then show ?thesis
          by (subst Split_unfold) (auto simp add: Cons)
      qed
    qed
  qed
qed


lemma IsAbs_Cons: "IsAbs p \<Longrightarrow> \<exists>rest. p = Separator # rest"
  by (cases p) (simp_all add: IsAbs_def HasPrefix_def)


lemma cleanStep_rooted:
  assumes "''..'' \<notin> set out" and "\<forall>e \<in> set out. Separator \<notin> set e" and "Separator \<notin> set el"
  shows "''..'' \<notin> set (cleanStep True out el) \<and> (\<forall>e \<in> set (cleanStep True out el). Separator \<notin> set e)"
  using assms
  by (auto simp add: cleanStep_def dest: in_set_butlastD)


lemma foldl_cleanStep_rooted:
  "''..'' \<notin> set out \<Longrightarrow> \<forall>e \<in> set out. Separator \<notin> set e \<Longrightarrow> \<forall>el \<in> set els. Separator \<notin> set el \<Longrightarrow>
     ''..'' \<notin> set (foldl (cleanStep True) out els)
     \<and> (\<forall>e \<in> set (foldl (cleanStep True) out els). Separator \<notin> set e)"
proof (induction els arbitrary: out)
  case Nil
  then show ?case by simp
next
  case (Cons el els)
  from Cons.prems have s: "Separator \<notin> set el" and r: "\<forall>x \<in> set els. Separator \<notin> set x"
    by simp_all
  from cleanStep_rooted [OF Cons.prems(1) Cons.prems(2) s]
  have a: "''..'' \<notin> set (cleanStep True out el)"
    and b: "\<forall>e \<in> set (cleanStep True out el). Separator \<notin> set e"
    by simp_all
  from Cons.IH [OF a b r] show ?case by simp
qed


lemma cleanElems_rooted:
  "''..'' \<notin> set (cleanElems True p) \<and> (\<forall>e \<in> set (cleanElems True p). Separator \<notin> set e)"
  unfolding cleanElems_def
  by (rule foldl_cleanStep_rooted) (simp_all add: Split_no_sep)


lemma Clean_abs:
  assumes "IsAbs p"
  shows "''..'' \<notin> set (Split (Clean p) Separator) \<and> (\<exists>rest. Clean p = Separator # rest)"
proof -
  from IsAbs_Cons [OF assms] have ne: "p \<noteq> []" by auto
  have c: "Clean p = Separator # Join (cleanElems True p) [Separator]"
    using assms ne by (simp add: Clean_def)
  have "''..'' \<notin> set (Split (Join (cleanElems True p) [Separator]) Separator)"
  proof (cases "cleanElems True p = []")
    case True
    then show ?thesis by simp
  next
    case False
    from Split_Join [OF False] cleanElems_rooted [of p]
    show ?thesis by simp
  qed
  then show ?thesis
    unfolding c by simp
qed


lemma Rel_abs:
  assumes b: "IsAbs basepath" and t: "IsAbs targpath"
  shows "\<exists>rel. Rel basepath targpath = Inr rel"
proof -
  from Clean_abs [OF b] obtain brest where
    bc: "Clean basepath = Separator # brest" and bd: "''..'' \<notin> set (Split (Clean basepath) Separator)"
    by blast
  from Clean_abs [OF t] obtain trest where
    tc: "Clean targpath = Separator # trest"
    by blast
  have sepdot: "Separator # brest \<noteq> ''.''"
    by (simp add: Separator_def)
  obtain b1 t1 el where l: "relLoop (Clean basepath) (Clean targpath) = (b1, t1, el)"
    by (cases "relLoop (Clean basepath) (Clean targpath)") auto
  from relLoop_elem [OF l] bd have nd: "el \<noteq> ''..''"
    by auto
  show ?thesis
    using l nd sepdot
    unfolding Rel_def Let_def bc tc
    by (auto simp add: bc tc)
qed


lemma strip_find:
  "stripFromAtLeastOnePrefix path roots =
     (case find (HasPrefix path) roots of
        None \<Rightarrow> Inl ErrNotRelativeToScanRoots
      | Some root \<Rightarrow> Rel root path)"
  by (induction roots) (auto split: sum.splits)


lemma Rel_not_sentinel: "Rel b t \<noteq> Inl ErrNotRelativeToScanRoots"
  by (auto simp add: Rel_def Let_def split: prod.splits)


lemma Abs_abs:
  assumes "IsAbs wd"
  shows "\<exists>a. Abs (Inr wd) p = Inr a \<and> IsAbs a"
proof -
  have cl: "IsAbs (Clean q)" if "IsAbs q" for q
  proof -
    from Clean_abs [OF that] obtain rest where "Clean q = Separator # rest" by blast
    then show ?thesis by (simp add: IsAbs_def HasPrefix_def)
  qed
  from IsAbs_Cons [OF assms] obtain w where wd: "wd = Separator # w" by blast
  show ?thesis
  proof (cases "IsAbs p")
    case True
    then show ?thesis by (simp add: Abs_def cl)
  next
    case False
    have "IsAbs (wd @ [Separator] @ p)"
      by (simp add: wd IsAbs_def HasPrefix_def)
    from cl [OF this] cl [OF assms] False show ?thesis
      by (simp add: Abs_def JoinPath_def wd)
  qed
qed


lemma strip_abs:
  assumes roots: "\<forall>root \<in> set roots. IsAbs root" and p: "IsAbs path"
  shows "case find (HasPrefix path) roots of
           None \<Rightarrow> stripFromAtLeastOnePrefix path roots = Inl ErrNotRelativeToScanRoots
         | Some root \<Rightarrow> \<exists>rel. Rel root path = Inr rel \<and> stripFromAtLeastOnePrefix path roots = Inr rel"
proof (cases "find (HasPrefix path) roots")
  case None
  then show ?thesis by (simp add: strip_find)
next
  case (Some root)
  then have "root \<in> set roots"
    by (auto simp add: find_Some_iff)
  with roots have "IsAbs root" by simp
  from Rel_abs [OF this p] obtain rel where "Rel root path = Inr rel" by blast
  with Some show ?thesis by (simp add: strip_find)
qed


lemma strip_all:
  assumes roots: "\<forall>root \<in> set roots. IsAbs root" and wd: "IsAbs wd"
  shows "case stripAllPathPrefixes (Inr wd) paths roots of
           Inr rels \<Rightarrow>
             list_all2 (\<lambda>p rel. \<exists>a root. Abs (Inr wd) p = Inr a \<and> find (HasPrefix a) roots = Some root
                                  \<and> Rel root a = Inr rel) paths rels
         | Inl e \<Rightarrow>
             e = ErrNotRelativeToScanRoots
             \<and> (\<exists>p \<in> set paths. \<exists>a. Abs (Inr wd) p = Inr a \<and> (\<forall>root \<in> set roots. \<not> HasPrefix a root))"
proof (induction paths)
  case Nil
  show ?case by simp
next
  case (Cons p paths)
  from Abs_abs [OF wd, of p] obtain a where a: "Abs (Inr wd) p = Inr a" and aa: "IsAbs a"
    by blast
  show ?case
  proof (cases "find (HasPrefix a) roots")
    case None
    then have no: "\<forall>root \<in> set roots. \<not> HasPrefix a root"
      by (simp add: find_None_iff)
    from None have "stripFromAtLeastOnePrefix a roots = Inl ErrNotRelativeToScanRoots"
      by (simp add: strip_find)
    with a no show ?thesis by auto
  next
    case (Some root)
    from strip_abs [OF roots aa] Some obtain rel where
      r: "Rel root a = Inr rel" and s: "stripFromAtLeastOnePrefix a roots = Inr rel"
      by auto
    show ?thesis
    proof (cases "stripAllPathPrefixes (Inr wd) paths roots")
      case (Inl e)
      with Cons.IH a s show ?thesis by auto
    next
      case (Inr rels)
      with Cons.IH a s r Some show ?thesis by auto
    qed
  qed
qed


text \<open>
  C6. With absolute scan roots (and an absolute working directory for \<^verbatim>\<open>filepath.Abs\<close>):
  an absolute path is resolved to \<^verbatim>\<open>filepath.Rel\<close> of the first root, in list order,
  that is a string prefix of it, which never fails, and to
  \<^verbatim>\<open>ErrNotRelativeToScanRoots\<close> when no root is a prefix of it. For a list of
  candidates, \<^verbatim>\<open>stripAllPathPrefixes\<close> either returns, for every candidate in order, the
  path of its absolute form relative to the first root that is a prefix of that form, or
  it fails with \<^verbatim>\<open>ErrNotRelativeToScanRoots\<close>, and then some candidate's absolute form
  has no root as a prefix.
\<close>


theorem path_resolution:
  assumes "\<forall>root \<in> set roots. IsAbs root" and "IsAbs wd"
  shows "(IsAbs path \<longrightarrow>
            (case find (HasPrefix path) roots of
               None \<Rightarrow> stripFromAtLeastOnePrefix path roots = Inl ErrNotRelativeToScanRoots
             | Some root \<Rightarrow> \<exists>rel. Rel root path = Inr rel \<and> stripFromAtLeastOnePrefix path roots = Inr rel))
         \<and> (case stripAllPathPrefixes (Inr wd) paths roots of
               Inr rels \<Rightarrow>
                 list_all2 (\<lambda>p rel. \<exists>a root. Abs (Inr wd) p = Inr a \<and> find (HasPrefix a) roots = Some root
                                      \<and> Rel root a = Inr rel) paths rels
             | Inl e \<Rightarrow>
                 e = ErrNotRelativeToScanRoots
                 \<and> (\<exists>p \<in> set paths. \<exists>a. Abs (Inr wd) p = Inr a \<and> (\<forall>root \<in> set roots. \<not> HasPrefix a root)))"
  using strip_abs [OF assms(1)] strip_all [OF assms] by blast


lemma resolve_eval:
  "stripAllPathPrefixes (Inr ''/home/u'') [''/a/b/z'', ''x/y'', ''/home''] [''/a/b'', ''/home'', ''/home/u'']
     = Inr [''z'', ''u/x/y'', ''.'']"
  "stripAllPathPrefixes (Inr ''/home/u'') [''/a/b/z'', ''/q''] [''/a/b'', ''/home'', ''/home/u'']
     = Inl ErrNotRelativeToScanRoots"
  "find (HasPrefix ''/home/u/x/y'') [''/a/b'', ''/home'', ''/home/u''] = Some ''/home''"
  "stripFromAtLeastOnePrefix ''/home/u/x/y'' [''/a/b'', ''/home'', ''/home/u''] = Inr ''u/x/y''"
  by code_simp+


theorem path_resolution_witness:
  "IsAbs ''/a/b'' \<and> IsAbs ''/home'' \<and> IsAbs ''/home/u'' \<and> IsAbs ''/home/u/x/y''
   \<and> find (HasPrefix ''/home/u/x/y'') [''/a/b'', ''/home'', ''/home/u''] = Some ''/home''
   \<and> Rel ''/home'' ''/home/u/x/y'' = Inr ''u/x/y''
   \<and> stripAllPathPrefixes (Inr ''/home/u'') [''/a/b/z'', ''x/y'', ''/home''] [''/a/b'', ''/home'', ''/home/u'']
       = Inr [''z'', ''u/x/y'', ''.'']
   \<and> list_all2 (\<lambda>p rel. \<exists>a root. Abs (Inr ''/home/u'') p = Inr a
                          \<and> find (HasPrefix a) [''/a/b'', ''/home'', ''/home/u''] = Some root
                          \<and> Rel root a = Inr rel)
        [''/a/b/z'', ''x/y'', ''/home''] [''z'', ''u/x/y'', ''.'']"
proof -
  let ?roots = "[''/a/b'', ''/home'', ''/home/u'']"
  have h1: "\<forall>root \<in> set ?roots. IsAbs root"
    by (simp add: IsAbs_def HasPrefix_def Separator_def)
  have h2: "IsAbs ''/home/u''" and h3: "IsAbs ''/home/u/x/y''"
    by (simp_all add: IsAbs_def HasPrefix_def Separator_def)
  note th = path_resolution [OF h1 h2, of "''/home/u/x/y''" "[''/a/b/z'', ''x/y'', ''/home'']"]
  from th h3 resolve_eval(3,4) have r: "Rel ''/home'' ''/home/u/x/y'' = Inr ''u/x/y''"
    by auto
  from th resolve_eval(1) have l: "list_all2 (\<lambda>p rel. \<exists>a root. Abs (Inr ''/home/u'') p = Inr a
                          \<and> find (HasPrefix a) ?roots = Some root
                          \<and> Rel root a = Inr rel)
        [''/a/b/z'', ''x/y'', ''/home''] [''z'', ''u/x/y'', ''.'']"
    by simp
  from h1 have "IsAbs ''/a/b'' \<and> IsAbs ''/home''" by simp
  with h2 h3 resolve_eval(1,3) r l show ?thesis by blast
qed


text \<open>
  C10. The absolute path \<^verbatim>\<open>/a/bc\<close> has the root \<^verbatim>\<open>/a/b\<close> as a string prefix, so it is
  accepted against that root, and it is made relative to \<^verbatim>\<open>../bc\<close>, which starts with
  \<^verbatim>\<open>..\<close>: a place outside the root.
\<close>


theorem relativization_escapes_root:
  "IsAbs ''/a/bc'' \<and> IsAbs ''/a/b'' \<and> HasPrefix ''/a/bc'' ''/a/b''
   \<and> stripFromAtLeastOnePrefix ''/a/bc'' [''/a/b''] = Inr ''../bc''
   \<and> stripAllPathPrefixes getwd [''/a/bc''] [''/a/b''] = Inr [''../bc'']
   \<and> HasPrefix ''../bc'' ''..''"
  by code_simp

end
